theory Spec2Isabelle
  imports Complex_Main
begin

section \<open>Numbers: numpy float64 values\<close>

text \<open>
  Every number of the notebooks is a numpy \<^verbatim>\<open>float64\<close>. A value is modelled as a
  real number or one of the three IEEE special values (\<^verbatim>\<open>inf\<close>, \<^verbatim>\<open>-inf\<close>,
  \<^verbatim>\<open>nan\<close>). The operations follow IEEE 754 on the special values (division by zero,
  logarithm of zero, \<^verbatim>\<open>inf - inf\<close>, \<^verbatim>\<open>0 * inf\<close>), and every finite result is brought
  into the range of float64 by \<open>fl_rnd\<close>: a result of magnitude \<open>2^1024 - 2^970\<close> or more
  (the largest float64 plus half a unit in its last place) overflows to \<^verbatim>\<open>inf\<close> or
  \<^verbatim>\<open>-inf\<close>, a result of magnitude \<open>2^-1075\<close> or less (half the smallest positive
  float64) underflows to zero, as round-to-nearest does. A result inside the range is kept
  as it is: the rounding to 53 significant bits, a relative error of about 1e-16, is not
  modelled, which is why statements about the returned numbers carry a tolerance.
  There is one zero (the code never divides by a negative zero).
\<close>

datatype fl = Fin real | PInf | NInf | NaN

definition float_max :: real where
  "float_max = 2 ^ 1024 - 2 ^ 970"

definition float_min :: real where
  "float_min = 1 / 2 ^ 1075"

definition fl_rnd :: "real \<Rightarrow> fl" where
  "fl_rnd x =
     (if float_max \<le> x then PInf
      else if x \<le> - float_max then NInf
      else if \<bar>x\<bar> \<le> float_min then Fin 0
      else Fin x)"

fun fl_add :: "fl \<Rightarrow> fl \<Rightarrow> fl" where
  "fl_add NaN y = NaN"
| "fl_add x NaN = NaN"
| "fl_add (Fin a) (Fin b) = fl_rnd (a + b)"
| "fl_add PInf NInf = NaN"
| "fl_add NInf PInf = NaN"
| "fl_add PInf y = PInf"
| "fl_add x PInf = PInf"
| "fl_add NInf y = NInf"
| "fl_add x NInf = NInf"

fun fl_mul :: "fl \<Rightarrow> fl \<Rightarrow> fl" where
  "fl_mul NaN y = NaN"
| "fl_mul x NaN = NaN"
| "fl_mul (Fin a) (Fin b) = fl_rnd (a * b)"
| "fl_mul (Fin a) PInf = (if 0 < a then PInf else if a < 0 then NInf else NaN)"
| "fl_mul (Fin a) NInf = (if 0 < a then NInf else if a < 0 then PInf else NaN)"
| "fl_mul PInf (Fin b) = (if 0 < b then PInf else if b < 0 then NInf else NaN)"
| "fl_mul NInf (Fin b) = (if 0 < b then NInf else if b < 0 then PInf else NaN)"
| "fl_mul PInf PInf = PInf"
| "fl_mul PInf NInf = NInf"
| "fl_mul NInf PInf = NInf"
| "fl_mul NInf NInf = PInf"

fun fl_div :: "fl \<Rightarrow> fl \<Rightarrow> fl" where
  "fl_div NaN y = NaN"
| "fl_div x NaN = NaN"
| "fl_div (Fin a) (Fin b) =
     (if b \<noteq> 0 then fl_rnd (a / b) else if 0 < a then PInf else if a < 0 then NInf else NaN)"
| "fl_div (Fin a) PInf = Fin 0"
| "fl_div (Fin a) NInf = Fin 0"
| "fl_div PInf (Fin b) = (if 0 \<le> b then PInf else NInf)"
| "fl_div NInf (Fin b) = (if 0 \<le> b then NInf else PInf)"
| "fl_div PInf PInf = NaN"
| "fl_div PInf NInf = NaN"
| "fl_div NInf PInf = NaN"
| "fl_div NInf NInf = NaN"

text \<open>\<^verbatim>\<open>np.log\<close>: \<^verbatim>\<open>log(0) = -inf\<close> (with a RuntimeWarning), \<^verbatim>\<open>log\<close> of a negative number
  is \<^verbatim>\<open>nan\<close>. \<^verbatim>\<open>np.exp\<close>: \<^verbatim>\<open>exp(-inf) = 0\<close>; a result below the range is
  \<^verbatim>\<open>0.0\<close>, one above it is \<^verbatim>\<open>inf\<close>.\<close>

fun fl_log :: "fl \<Rightarrow> fl" where
  "fl_log (Fin a) = (if 0 < a then fl_rnd (ln a) else if a = 0 then NInf else NaN)"
| "fl_log PInf = PInf"
| "fl_log NInf = NaN"
| "fl_log NaN = NaN"

fun fl_exp :: "fl \<Rightarrow> fl" where
  "fl_exp (Fin a) = fl_rnd (exp a)"
| "fl_exp PInf = PInf"
| "fl_exp NInf = Fin 0"
| "fl_exp NaN = NaN"

text \<open>IEEE comparison: every comparison with \<^verbatim>\<open>nan\<close> is false.\<close>

fun fl_less :: "fl \<Rightarrow> fl \<Rightarrow> bool" where
  "fl_less NaN y = False"
| "fl_less x NaN = False"
| "fl_less (Fin a) (Fin b) = (a < b)"
| "fl_less x NInf = False"
| "fl_less NInf y = True"
| "fl_less PInf y = False"
| "fl_less x PInf = True"

fun is_finite :: "fl \<Rightarrow> bool" where
  "is_finite (Fin a) = True"
| "is_finite x = False"

text \<open>\<^verbatim>\<open>np.sum\<close> over one row, accumulated from \<^verbatim>\<open>0.0\<close>; a partial sum that
  overflows is \<^verbatim>\<open>inf\<close>.\<close>

definition np_sum :: "fl list \<Rightarrow> fl" where
  "np_sum row = foldl fl_add (Fin 0) row"

section \<open>pandas tables\<close>

datatype error = KeyError string | AxisError

record dataframe =
  data :: "fl list list"
  index :: "string list"
  columns :: "string list"

record series =
  vals :: "fl list"
  labels :: "string list"
  name :: string

text \<open>
  \<^verbatim>\<open>df.loc[key]\<close>: the row whose label is \<^verbatim>\<open>key\<close>, as a Series indexed by the column
  labels; a label that is not in the index raises \<^verbatim>\<open>KeyError\<close>. The row labels of the
  notebooks' tables are distinct; for a repeated label pandas returns a sub-frame instead
  of a Series, which this model does not represent (the lookup takes the first row), so
  the general theorems below assume distinct labels.
\<close>

definition loc :: "dataframe \<Rightarrow> string \<Rightarrow> error + series" where
  "loc df key =
     (case map_of (zip (index df) (data df)) key of
        None \<Rightarrow> Inl (KeyError key)
      | Some row \<Rightarrow> Inr \<lparr>vals = row, labels = columns df, name = key\<rparr>)"

text \<open>\<^verbatim>\<open>np.array(rows).T\<close> for a non-empty list of rows of one length.\<close>

definition np_T :: "fl list list \<Rightarrow> fl list list" where
  "np_T m = (case m of [] \<Rightarrow> [] | r # rs \<Rightarrow> map (\<lambda>j. map (\<lambda>row. row ! j) m) [0..<length r])"

section \<open>The world model\<close>

text \<open>
  An object is a dict with the keys \<^verbatim>\<open>"color"\<close>, \<^verbatim>\<open>"shape"\<close> and \<^verbatim>\<open>"string"\<close>. The
  notebooks keep \<^verbatim>\<open>objects\<close> and \<^verbatim>\<open>utterances\<close> in module-level variables that every
  function reads; the model passes them as a \<open>world\<close>.
\<close>

record obj =
  color :: string
  shape :: string
  string :: string

record world =
  objects :: "obj list"
  utterances :: "string list"

definition canonical :: world where
  "canonical =
     \<lparr>objects =
        [\<lparr>color = ''blue'', shape = ''square'', string = ''blue square''\<rparr>,
         \<lparr>color = ''blue'', shape = ''circle'', string = ''blue circle''\<rparr>,
         \<lparr>color = ''green'', shape = ''square'', string = ''green square''\<rparr>],
      utterances = [''blue'', ''green'', ''square'', ''circle'']\<rparr>"

definition meaning :: "obj \<Rightarrow> string \<Rightarrow> bool" where
  "meaning ob utt = ((utt = color ob) \<or> (utt = shape ob))"

section \<open>normalize_rows and the literal listener\<close>

definition normalize_rows :: "fl list list \<Rightarrow> fl list list" where
  "normalize_rows matrix =
     (let totals = map np_sum matrix
      in map (\<lambda>(row, total). map (\<lambda>x. fl_div x total) row) (zip matrix totals))"

definition all_counts :: "world \<Rightarrow> fl list list" where
  "all_counts w =
     map (\<lambda>curr_utt. map (\<lambda>curr_obj. if meaning curr_obj curr_utt then Fin 1 else Fin 0)
                        (objects w))
         (utterances w)"

definition literal_listener :: "world \<Rightarrow> string \<Rightarrow> error + dataframe \<times> series" where
  "literal_listener w utt =
     (let data = normalize_rows (all_counts w);
          df_cols = map string (objects w);
          df = \<lparr>data = data, index = utterances w, columns = df_cols\<rparr>
      in case loc df utt of Inl e \<Rightarrow> Inl e | Inr probs \<Rightarrow> Inr (df, probs))"

section \<open>The pragmatic speaker\<close>

text \<open>
  The repository holds two versions of the pragmatic layers. The first notebook
  (\<^verbatim>\<open>src/unnamed/part_000\<close>) adds a stabilization constant before the logarithm in
  \<^verbatim>\<open>pragmatic_speaker\<close> and before normalization in \<^verbatim>\<open>pragmatic_listener\<close>; the
  notebook \<^verbatim>\<open>intro-to-rsa.ipynb\<close> has neither constant. Both are embedded: the
  functions of \<^verbatim>\<open>intro-to-rsa.ipynb\<close> carry the suffix \<open>_intro\<close>.

  \<^verbatim>\<open>alpha\<close> is a Python number, taken as a real. The loop over \<^verbatim>\<open>utterances\<close> that
  appends to \<^verbatim>\<open>all_vals\<close> is a recursion over the list. With no utterance at all
  \<^verbatim>\<open>np.array([])\<close> is one-dimensional and \<^verbatim>\<open>np.sum(matrix, axis=1)\<close> raises
  AxisError.
\<close>

definition epsilon_speaker :: real where
  "epsilon_speaker = 1 / 10 ^ 9"

fun speaker_all_vals :: "world \<Rightarrow> real \<Rightarrow> string list \<Rightarrow> error + fl list list" where
  "speaker_all_vals w alpha [] = Inr []"
| "speaker_all_vals w alpha (curr_utt # rest) =
     (case literal_listener w curr_utt of
        Inl e \<Rightarrow> Inl e
      | Inr (df, probs) \<Rightarrow>
          (let utility = vals probs;
               val = map (\<lambda>p. fl_exp (fl_mul (Fin alpha) (fl_log (fl_add p (Fin epsilon_speaker)))))
                         utility
           in case speaker_all_vals w alpha rest of
                Inl e \<Rightarrow> Inl e
              | Inr all_vals \<Rightarrow> Inr (val # all_vals)))"

definition pragmatic_speaker :: "world \<Rightarrow> obj \<Rightarrow> real \<Rightarrow> error + dataframe \<times> series" where
  "pragmatic_speaker w ob alpha =
     (case speaker_all_vals w alpha (utterances w) of
        Inl e \<Rightarrow> Inl e
      | Inr all_vals \<Rightarrow>
          if all_vals = [] then Inl AxisError
          else
            (let data = normalize_rows (np_T all_vals);
                 df_idx = map string (objects w);
                 df = \<lparr>data = data, index = df_idx, columns = utterances w\<rparr>
             in case loc df (string ob) of Inl e \<Rightarrow> Inl e | Inr probs \<Rightarrow> Inr (df, probs)))"

fun speaker_all_vals_intro :: "world \<Rightarrow> real \<Rightarrow> string list \<Rightarrow> error + fl list list" where
  "speaker_all_vals_intro w alpha [] = Inr []"
| "speaker_all_vals_intro w alpha (curr_utt # rest) =
     (case literal_listener w curr_utt of
        Inl e \<Rightarrow> Inl e
      | Inr (df, probs) \<Rightarrow>
          (let utility = vals probs;
               val = map (\<lambda>p. fl_exp (fl_mul (Fin alpha) (fl_log p))) utility
           in case speaker_all_vals_intro w alpha rest of
                Inl e \<Rightarrow> Inl e
              | Inr all_vals \<Rightarrow> Inr (val # all_vals)))"

definition pragmatic_speaker_intro :: "world \<Rightarrow> obj \<Rightarrow> real \<Rightarrow> error + dataframe \<times> series" where
  "pragmatic_speaker_intro w ob alpha =
     (case speaker_all_vals_intro w alpha (utterances w) of
        Inl e \<Rightarrow> Inl e
      | Inr all_vals \<Rightarrow>
          if all_vals = [] then Inl AxisError
          else
            (let data = normalize_rows (np_T all_vals);
                 df_idx = map string (objects w);
                 df = \<lparr>data = data, index = df_idx, columns = utterances w\<rparr>
             in case loc df (string ob) of Inl e \<Rightarrow> Inl e | Inr probs \<Rightarrow> Inr (df, probs)))"

section \<open>The pragmatic listener\<close>

text \<open>
  \<^verbatim>\<open>pragmatic_listener\<close> calls \<^verbatim>\<open>pragmatic_speaker(curr_obj)\<close> with the default
  \<^verbatim>\<open>alpha=1\<close> for every object. With no object at all the array is one-dimensional
  and \<^verbatim>\<open>np.sum(matrix, axis=1)\<close> raises AxisError.
\<close>

definition epsilon_listener :: real where
  "epsilon_listener = 1 / 10 ^ 7"

fun listener_all_vals :: "world \<Rightarrow> obj list \<Rightarrow> error + fl list list" where
  "listener_all_vals w [] = Inr []"
| "listener_all_vals w (curr_obj # rest) =
     (case pragmatic_speaker w curr_obj 1 of
        Inl e \<Rightarrow> Inl e
      | Inr (df, probs) \<Rightarrow>
          (case listener_all_vals w rest of
             Inl e \<Rightarrow> Inl e
           | Inr all_vals \<Rightarrow>
               Inr (map (\<lambda>p. fl_add p (Fin epsilon_listener)) (vals probs) # all_vals)))"

definition pragmatic_listener :: "world \<Rightarrow> string \<Rightarrow> error + dataframe \<times> series" where
  "pragmatic_listener w utt =
     (case listener_all_vals w (objects w) of
        Inl e \<Rightarrow> Inl e
      | Inr all_vals \<Rightarrow>
          if all_vals = [] then Inl AxisError
          else
            (let data = normalize_rows (np_T all_vals);
                 df_cols = map string (objects w);
                 df = \<lparr>data = data, index = utterances w, columns = df_cols\<rparr>
             in case loc df utt of Inl e \<Rightarrow> Inl e | Inr probs \<Rightarrow> Inr (df, probs)))"

fun listener_all_vals_intro :: "world \<Rightarrow> obj list \<Rightarrow> error + fl list list" where
  "listener_all_vals_intro w [] = Inr []"
| "listener_all_vals_intro w (curr_obj # rest) =
     (case pragmatic_speaker_intro w curr_obj 1 of
        Inl e \<Rightarrow> Inl e
      | Inr (df, probs) \<Rightarrow>
          (case listener_all_vals_intro w rest of
             Inl e \<Rightarrow> Inl e
           | Inr all_vals \<Rightarrow> Inr (vals probs # all_vals)))"

definition pragmatic_listener_intro :: "world \<Rightarrow> string \<Rightarrow> error + dataframe \<times> series" where
  "pragmatic_listener_intro w utt =
     (case listener_all_vals_intro w (objects w) of
        Inl e \<Rightarrow> Inl e
      | Inr all_vals \<Rightarrow>
          if all_vals = [] then Inl AxisError
          else
            (let data = normalize_rows (np_T all_vals);
                 df_cols = map string (objects w);
                 df = \<lparr>data = data, index = utterances w, columns = df_cols\<rparr>
             in case loc df utt of Inl e \<Rightarrow> Inl e | Inr probs \<Rightarrow> Inr (df, probs)))"

section \<open>Auxiliary definitions for the proofs\<close>

text \<open>
  The worlds and objects used as concrete inputs: the three objects of the canonical
  world, an object that is not registered, and the canonical world extended with the
  utterance \<^verbatim>\<open>"red"\<close>, which is true of no object.
\<close>

definition blue_square :: obj where
  "blue_square = \<lparr>color = ''blue'', shape = ''square'', string = ''blue square''\<rparr>"

definition blue_circle :: obj where
  "blue_circle = \<lparr>color = ''blue'', shape = ''circle'', string = ''blue circle''\<rparr>"

definition green_square :: obj where
  "green_square = \<lparr>color = ''green'', shape = ''square'', string = ''green square''\<rparr>"

definition red_circle :: obj where
  "red_circle = \<lparr>color = ''red'', shape = ''circle'', string = ''red circle''\<rparr>"

definition world_red :: world where
  "world_red = canonical\<lparr>utterances := utterances canonical @ [''red'']\<rparr>"

text \<open>
  The labels of a world are distinct: no utterance is listed twice and no two objects
  share a display string (the labels are the keys of the returned tables).
\<close>

definition distinct_labels :: "world \<Rightarrow> bool" where
  "distinct_labels w = (distinct (utterances w) \<and> distinct (map string (objects w)))"

text \<open>
  Underflow on a non-negative real, and the non-negative reals a float64 can hold (as far
  as the range goes): zero, or a number above the underflow bound and below the overflow
  bound. \<open>fl_ok\<close> holds of these values, of \<^verbatim>\<open>inf\<close> and of \<^verbatim>\<open>nan\<close>.
\<close>

definition sat :: "real \<Rightarrow> real" where
  "sat y = (if y \<le> float_min then 0 else y)"

definition ok_real :: "real \<Rightarrow> bool" where
  "ok_real x = (0 \<le> x \<and> (x = 0 \<or> float_min < x) \<and> x < float_max)"

fun fl_ok :: "fl \<Rightarrow> bool" where
  "fl_ok (Fin a) = ok_real a"
| "fl_ok PInf = True"
| "fl_ok NInf = False"
| "fl_ok NaN = True"

text \<open>
  Row \<open>i\<close> of a matrix handed to \<^verbatim>\<open>normalize_rows\<close> is \<^emph>\<open>non-degenerate\<close> when it
  exists, all its entries are finite numbers, at least one entry is not zero, and the
  total that \<^verbatim>\<open>np.sum\<close> computes is finite (the sum does not overflow).
\<close>

definition nondegenerate_row :: "fl list list \<Rightarrow> nat \<Rightarrow> bool" where
  "nondegenerate_row m i =
     (i < length m \<and> list_all is_finite (m ! i) \<and> list_ex (\<lambda>x. x \<noteq> Fin 0) (m ! i) \<and>
      is_finite (np_sum (m ! i)))"

text \<open>
  The values of a returned row sum to 1 within a tolerance: \<^verbatim>\<open>np.sum\<close> of the row is a
  finite number that differs from 1 by at most \<open>n / 2^50\<close> for a row of \<open>n\<close> values.
\<close>

definition sums_to_one :: "fl list \<Rightarrow> bool" where
  "sums_to_one row =
     (case np_sum row of
        Fin s \<Rightarrow> \<bar>s - 1\<bar> \<le> real (length row) / 2 ^ 50
      | _ \<Rightarrow> False)"

text \<open>Closed forms of the rows and cells that the three stages compute.\<close>

definition normalize_row :: "fl list \<Rightarrow> fl list" where
  "normalize_row row = map (\<lambda>x. fl_div x (np_sum row)) row"

definition counts_row :: "world \<Rightarrow> string \<Rightarrow> fl list" where
  "counts_row w u = map (\<lambda>curr_obj. if meaning curr_obj u then Fin 1 else Fin 0) (objects w)"

definition l0_row :: "world \<Rightarrow> string \<Rightarrow> fl list" where
  "l0_row w u = normalize_row (counts_row w u)"

definition l0_df :: "world \<Rightarrow> dataframe" where
  "l0_df w = \<lparr>data = map (l0_row w) (utterances w), index = utterances w,
             columns = map string (objects w)\<rparr>"

definition l0_cell :: "world \<Rightarrow> obj \<Rightarrow> string \<Rightarrow> fl" where
  "l0_cell w ob u = fl_div (if meaning ob u then Fin 1 else Fin 0) (np_sum (counts_row w u))"

definition weight :: "real \<Rightarrow> fl \<Rightarrow> fl" where
  "weight alpha p = fl_exp (fl_mul (Fin alpha) (fl_log (fl_add p (Fin epsilon_speaker))))"

definition weight_intro :: "real \<Rightarrow> fl \<Rightarrow> fl" where
  "weight_intro alpha p = fl_exp (fl_mul (Fin alpha) (fl_log p))"

definition add_eps :: "fl \<Rightarrow> fl" where
  "add_eps p = fl_add p (Fin epsilon_listener)"

definition s1_pre :: "(fl \<Rightarrow> fl) \<Rightarrow> world \<Rightarrow> obj \<Rightarrow> fl list" where
  "s1_pre g w ob = map (\<lambda>u. g (l0_cell w ob u)) (utterances w)"

definition s1_row :: "(fl \<Rightarrow> fl) \<Rightarrow> world \<Rightarrow> obj \<Rightarrow> fl list" where
  "s1_row g w ob = normalize_row (s1_pre g w ob)"

definition s1_df :: "(fl \<Rightarrow> fl) \<Rightarrow> world \<Rightarrow> dataframe" where
  "s1_df g w = \<lparr>data = map (s1_row g w) (objects w),
               index = map string (objects w), columns = utterances w\<rparr>"

definition s1_cell :: "(fl \<Rightarrow> fl) \<Rightarrow> world \<Rightarrow> obj \<Rightarrow> string \<Rightarrow> fl" where
  "s1_cell g w ob u = fl_div (g (l0_cell w ob u)) (np_sum (s1_pre g w ob))"

definition l1_pre :: "(fl \<Rightarrow> fl) \<Rightarrow> (fl \<Rightarrow> fl) \<Rightarrow> world \<Rightarrow> string \<Rightarrow> fl list" where
  "l1_pre g e w u = map (\<lambda>ob. e (s1_cell g w ob u)) (objects w)"

definition l1_row :: "(fl \<Rightarrow> fl) \<Rightarrow> (fl \<Rightarrow> fl) \<Rightarrow> world \<Rightarrow> string \<Rightarrow> fl list" where
  "l1_row g e w u = normalize_row (l1_pre g e w u)"

definition l1_df :: "(fl \<Rightarrow> fl) \<Rightarrow> (fl \<Rightarrow> fl) \<Rightarrow> world \<Rightarrow> dataframe" where
  "l1_df g e w = \<lparr>data = map (l1_row g e w) (utterances w), index = utterances w,
                 columns = map string (objects w)\<rparr>"

text \<open>
  The literal-listener probabilities of the four utterances for each canonical object (the
  columns of the table of \<^verbatim>\<open>literal_listener\<close>); the weights \<open>q powr a\<close> of a list
  of numbers \<open>q\<close>, a weight below the range being zero; and the shares of these weights in
  their total, a share below the range being zero.
\<close>

definition l0_probs :: "obj \<Rightarrow> real list" where
  "l0_probs ob =
     (if ob = blue_square then [1 / 2, 0, 1 / 2, 0]
      else if ob = blue_circle then [1 / 2, 0, 0, 1]
      else [0, 1, 1 / 2, 0])"

definition sat_weights :: "real \<Rightarrow> real list \<Rightarrow> real list" where
  "sat_weights a qs = map (\<lambda>q. sat (q powr a)) qs"

definition sat_shares :: "real \<Rightarrow> real list \<Rightarrow> real list" where
  "sat_shares a qs =
     map (\<lambda>w. sat (w / sum_list (sat_weights a qs))) (sat_weights a qs)"

text \<open>
  Two rows of probabilities over the same utterances, at a smaller and a larger
  \<^verbatim>\<open>alpha\<close>: every utterance of maximal probability in the first row is of maximal
  probability in the second row, and its probability there is not smaller, up to the
  tolerance \<open>tol\<close>.
\<close>

definition max_mass_nondecreasing :: "real \<Rightarrow> real list \<Rightarrow> real list \<Rightarrow> bool" where
  "max_mass_nondecreasing tol r1 r2 =
     (length r1 = length r2 \<and>
      (\<forall>k < length r1. (\<forall>j < length r1. r1 ! j \<le> r1 ! k) \<longrightarrow>
         (\<forall>j < length r2. r2 ! j \<le> r2 ! k) \<and> r1 ! k \<le> r2 ! k + tol))"

text \<open>No row of a matrix consists of zeros only; a stage returns finite numbers only.\<close>

definition no_zero_row :: "fl list list \<Rightarrow> bool" where
  "no_zero_row m = list_all (list_ex (\<lambda>x. x \<noteq> Fin 0)) m"

definition returns_finite :: "error + dataframe \<times> series \<Rightarrow> bool" where
  "returns_finite r =
     (case r of
        Inl e \<Rightarrow> False
      | Inr (df, probs) \<Rightarrow> list_all (list_all is_finite) (data df) \<and> list_all is_finite (vals probs))"

section \<open>Results inside the range of float64\<close>

lemma float_min_pos: "0 < float_min"
  by (simp add: float_min_def)

lemma float_min_small: "float_min < 1 / 10 ^ 300"
  by (simp add: float_min_def)

lemma float_max_large: "10 ^ 300 < float_max"
  by (simp add: float_max_def)

lemma float_min_less_max: "float_min < float_max"
  using float_min_small float_max_large by simp

lemma fl_rnd_0 [simp]: "fl_rnd 0 = Fin 0"
  using float_min_pos float_max_large by (simp add: fl_rnd_def)

lemma fl_rnd_mid:
  assumes "1 / 10 ^ 300 \<le> \<bar>x\<bar>" and "\<bar>x\<bar> \<le> 10 ^ 300"
  shows "fl_rnd x = Fin x"
proof -
  from assms(1) float_min_small have "float_min < \<bar>x\<bar>" by linarith
  moreover from assms(2) float_max_large have "\<bar>x\<bar> < float_max" by linarith
  ultimately show ?thesis by (auto simp: fl_rnd_def)
qed

lemma fl_rnd_eval:
  assumes "1 / 10 ^ 30 \<le> \<bar>x\<bar>" and "\<bar>x\<bar> \<le> 10 ^ 30"
  shows "fl_rnd x = Fin x"
proof (rule fl_rnd_mid)
  have "(1::real) / 10 ^ 300 \<le> 1 / 10 ^ 30" by simp
  with assms(1) show "1 / 10 ^ 300 \<le> \<bar>x\<bar>" by linarith
  have "(10::real) ^ 30 \<le> 10 ^ 300" by simp
  with assms(2) show "\<bar>x\<bar> \<le> 10 ^ 300" by linarith
qed

text \<open>The logarithm lies between \<open>1 - 1 / c\<close> and \<open>c - 1\<close>.\<close>

lemma ln_lower: "0 < c \<Longrightarrow> 1 - 1 / c \<le> ln (c::real)"
proof -
  assume c: "0 < c"
  then have "ln (1 / c) \<le> 1 / c - 1" by (intro ln_le_minus_one) simp
  with c show ?thesis by (simp add: ln_div)
qed

lemma ln_abs_bounds:
  fixes c :: real
  assumes c: "0 < c" and d: "1 / 10 ^ 30 \<le> \<bar>c - 1\<bar>" and lo: "1 / 10 ^ 30 \<le> c" and hi: "c \<le> 10 ^ 30"
  shows "1 / 10 ^ 60 \<le> \<bar>ln c\<bar>" and "\<bar>ln c\<bar> \<le> 10 ^ 30"
proof -
  have up: "ln c \<le> c - 1" using c by (rule ln_le_minus_one)
  have low: "1 - 1 / c \<le> ln c" using c by (rule ln_lower)
  have inv: "1 / c \<le> 10 ^ 30"
  proof -
    have "1 / c \<le> 1 / (1 / 10 ^ 30)" using lo by (intro divide_left_mono) simp_all
    then show ?thesis by simp
  qed
  show "\<bar>ln c\<bar> \<le> 10 ^ 30"
    using up low hi inv by (simp add: abs_le_iff)
  show "1 / 10 ^ 60 \<le> \<bar>ln c\<bar>"
  proof (cases "c < 1")
    case True
    with d have "1 / 10 ^ 30 \<le> 1 - c" by simp
    with up have "1 / 10 ^ 30 \<le> - ln c" by linarith
    moreover have "(1::real) / 10 ^ 60 \<le> 1 / 10 ^ 30" by simp
    ultimately show ?thesis by linarith
  next
    case False
    with d have d': "1 / 10 ^ 30 \<le> c - 1" by simp
    have "1 / 10 ^ 60 = (1 / 10 ^ 30) / (10 ^ 30 :: real)" by simp
    also have "\<dots> \<le> (c - 1) / 10 ^ 30" using d' by (intro divide_right_mono) simp_all
    also have "\<dots> \<le> (c - 1) / c" using d' hi c by (intro divide_left_mono) simp_all
    also have "\<dots> = 1 - 1 / c" using c by (simp add: diff_divide_distrib)
    finally have "1 / 10 ^ 60 \<le> ln c" using low by linarith
    then show ?thesis by linarith
  qed
qed

lemma fl_rnd_mul_ln:
  fixes a c :: real
  assumes "1 \<le> \<bar>a\<bar>" and "\<bar>a\<bar> \<le> 10 ^ 30"
    and "0 < c" and "1 / 10 ^ 30 \<le> \<bar>c - 1\<bar>" and "1 / 10 ^ 30 \<le> c" and "c \<le> 10 ^ 30"
  shows "fl_rnd (a * ln c) = Fin (a * ln c)"
proof (rule fl_rnd_mid)
  note b = ln_abs_bounds [OF assms(3-6)]
  have "1 / 10 ^ 300 \<le> (1::real) / 10 ^ 60" by simp
  also have "\<dots> \<le> \<bar>ln c\<bar>" by (rule b(1))
  also have "\<dots> = 1 * \<bar>ln c\<bar>" by simp
  also have "\<dots> \<le> \<bar>a\<bar> * \<bar>ln c\<bar>" using assms(1) by (intro mult_right_mono) simp_all
  finally show "1 / 10 ^ 300 \<le> \<bar>a * ln c\<bar>" by (simp add: abs_mult)
  have "\<bar>a\<bar> * \<bar>ln c\<bar> \<le> 10 ^ 30 * 10 ^ 30"
    using assms(2) b(2) by (intro mult_mono) simp_all
  also have "\<dots> \<le> (10::real) ^ 300" by simp
  finally show "\<bar>a * ln c\<bar> \<le> 10 ^ 300" by (simp add: abs_mult)
qed

lemma fl_rnd_ln:
  fixes c :: real
  assumes "0 < c" and "1 / 10 ^ 30 \<le> \<bar>c - 1\<bar>" and "1 / 10 ^ 30 \<le> c" and "c \<le> 10 ^ 30"
  shows "fl_rnd (ln c) = Fin (ln c)"
  using fl_rnd_mul_ln [of 1 c] assms by simp

lemma fl_rnd_ln_1 [simp]: "fl_rnd (ln 1) = Fin 0"
  by simp

lemmas fl_eval = fl_rnd_eval fl_rnd_ln

section \<open>What the three stages return\<close>

lemmas canonical_eval =
  literal_listener_def canonical_def all_counts_def meaning_def normalize_rows_def
  np_sum_def loc_def np_T_def fl_eval

lemmas stage_eval =
  canonical_eval pragmatic_speaker_def pragmatic_speaker_intro_def pragmatic_listener_def
  pragmatic_listener_intro_def epsilon_speaker_def epsilon_listener_def

lemma normalize_rows_map: "normalize_rows m = map normalize_row m"
  by (simp add: normalize_rows_def normalize_row_def zip_map2 zip_same_conv_map)

lemma all_counts_map: "all_counts w = map (counts_row w) (utterances w)"
  by (simp add: all_counts_def counts_row_def)

lemma length_normalize_row [simp]: "length (normalize_row r) = length r"
  by (simp add: normalize_row_def)

lemma length_l0_row [simp]: "length (l0_row w u) = length (objects w)"
  by (simp add: l0_row_def counts_row_def)

lemma l0_row_cells: "l0_row w u = map (\<lambda>ob. l0_cell w ob u) (objects w)"
  by (simp add: l0_row_def normalize_row_def l0_cell_def counts_row_def)

lemma s1_row_cells: "s1_row g w ob = map (s1_cell g w ob) (utterances w)"
  by (simp add: s1_row_def normalize_row_def s1_cell_def s1_pre_def)

lemma loc_case:
  "(case loc df k of Inl e \<Rightarrow> Inl e | Inr p \<Rightarrow> Inr (df, p)) =
   (case map_of (zip (index df) (data df)) k of
      None \<Rightarrow> Inl (KeyError k)
    | Some row \<Rightarrow> Inr (df, \<lparr>vals = row, labels = columns df, name = k\<rparr>))"
  by (simp add: loc_def split: option.split)

lemma map_of_zip_maps:
  "map_of (zip (map f xs) (map g xs)) k = map_option g (find (\<lambda>x. f x = k) xs)"
  by (induction xs) simp_all

lemma find_label:
  "distinct (map f xs) \<Longrightarrow> x \<in> set xs \<Longrightarrow> find (\<lambda>y. f y = f x) xs = Some x"
  by (induction xs) auto

lemma find_no_label:
  "k \<notin> set (map f xs) \<Longrightarrow> find (\<lambda>y. f y = k) xs = None"
  by (induction xs) auto

lemma map_upt_nth: "map (\<lambda>j. f (xs ! j)) [0..<length xs] = map f xs"
  by (rule nth_equalityI) simp_all

lemma np_T_map:
  assumes "us \<noteq> []" and "\<And>u. u \<in> set us \<Longrightarrow> length (f u) = n"
  shows "np_T (map f us) = map (\<lambda>j. map (\<lambda>u. f u ! j) us) [0..<n]"
  using assms by (cases us) (simp_all add: np_T_def)

subsection \<open>literal_listener\<close>

lemma literal_listener_eq:
  "literal_listener w utt =
     (if utt \<in> set (utterances w)
      then Inr (l0_df w, \<lparr>vals = l0_row w utt, labels = map string (objects w), name = utt\<rparr>)
      else Inl (KeyError utt))"
  by (simp add: literal_listener_def loc_def normalize_rows_map all_counts_map l0_df_def
      l0_row_def map_of_zip_map)

subsection \<open>pragmatic_speaker\<close>

lemma speaker_all_vals_eq:
  "set us \<subseteq> set (utterances w) \<Longrightarrow>
   speaker_all_vals w alpha us = Inr (map (\<lambda>u. map (weight alpha) (l0_row w u)) us)"
  by (induction us) (simp_all add: literal_listener_eq weight_def)

lemma speaker_all_vals_intro_eq:
  "set us \<subseteq> set (utterances w) \<Longrightarrow>
   speaker_all_vals_intro w alpha us = Inr (map (\<lambda>u. map (weight_intro alpha) (l0_row w u)) us)"
  by (induction us) (simp_all add: literal_listener_eq weight_intro_def)

lemma s1_pre_matrix:
  assumes "utterances w \<noteq> []"
  shows "np_T (map (\<lambda>u. map g (l0_row w u)) (utterances w)) = map (s1_pre g w) (objects w)"
proof -
  have "np_T (map (\<lambda>u. map g (l0_row w u)) (utterances w)) =
        map (\<lambda>j. map (\<lambda>u. map g (l0_row w u) ! j) (utterances w)) [0..<length (objects w)]"
    using assms by (intro np_T_map) simp_all
  also have "\<dots> = map (\<lambda>j. map (\<lambda>u. g (l0_cell w (objects w ! j) u)) (utterances w))
                      [0..<length (objects w)]"
    by (simp add: l0_row_cells)
  also have "\<dots> = map (\<lambda>ob. map (\<lambda>u. g (l0_cell w ob u)) (utterances w)) (objects w)"
    by (rule map_upt_nth)
  finally show ?thesis
    by (simp add: s1_pre_def)
qed

lemma s1_data:
  "utterances w \<noteq> [] \<Longrightarrow>
   normalize_rows (np_T (map (\<lambda>u. map g (l0_row w u)) (utterances w))) =
   map (s1_row g w) (objects w)"
  by (simp add: s1_pre_matrix normalize_rows_map s1_row_def)

lemma pragmatic_speaker_eq:
  "pragmatic_speaker w ob alpha =
     (if utterances w = [] then Inl AxisError
      else case find (\<lambda>x. string x = string ob) (objects w) of
             None \<Rightarrow> Inl (KeyError (string ob))
           | Some ob' \<Rightarrow> Inr (s1_df (weight alpha) w,
               \<lparr>vals = s1_row (weight alpha) w ob', labels = utterances w, name = string ob\<rparr>))"
  by (simp add: pragmatic_speaker_def speaker_all_vals_eq s1_data loc_case s1_df_def Let_def
      map_of_zip_maps split: option.split)

lemma pragmatic_speaker_intro_eq:
  "pragmatic_speaker_intro w ob alpha =
     (if utterances w = [] then Inl AxisError
      else case find (\<lambda>x. string x = string ob) (objects w) of
             None \<Rightarrow> Inl (KeyError (string ob))
           | Some ob' \<Rightarrow> Inr (s1_df (weight_intro alpha) w,
               \<lparr>vals = s1_row (weight_intro alpha) w ob', labels = utterances w,
                 name = string ob\<rparr>))"
  by (simp add: pragmatic_speaker_intro_def speaker_all_vals_intro_eq s1_data loc_case s1_df_def
      Let_def map_of_zip_maps split: option.split)

subsection \<open>pragmatic_listener\<close>

lemma listener_all_vals_eq:
  assumes "utterances w \<noteq> []" and "distinct (map string (objects w))"
  shows "set obs \<subseteq> set (objects w) \<Longrightarrow>
         listener_all_vals w obs = Inr (map (\<lambda>ob. map add_eps (s1_row (weight 1) w ob)) obs)"
  using assms
  by (induction obs) (simp_all add: pragmatic_speaker_eq find_label add_eps_def)

lemma listener_all_vals_intro_eq:
  assumes "utterances w \<noteq> []" and "distinct (map string (objects w))"
  shows "set obs \<subseteq> set (objects w) \<Longrightarrow>
         listener_all_vals_intro w obs = Inr (map (\<lambda>ob. s1_row (weight_intro 1) w ob) obs)"
  using assms
  by (induction obs) (simp_all add: pragmatic_speaker_intro_eq find_label)

lemma listener_all_vals_no_utterance:
  "utterances w = [] \<Longrightarrow> obs \<noteq> [] \<Longrightarrow> listener_all_vals w obs = Inl AxisError"
  by (cases obs) (simp_all add: pragmatic_speaker_eq)

lemma listener_all_vals_intro_no_utterance:
  "utterances w = [] \<Longrightarrow> obs \<noteq> [] \<Longrightarrow> listener_all_vals_intro w obs = Inl AxisError"
  by (cases obs) (simp_all add: pragmatic_speaker_intro_eq)

lemma l1_pre_matrix:
  assumes "objects w \<noteq> []"
  shows "np_T (map (\<lambda>ob. map e (s1_row g w ob)) (objects w)) =
         map (l1_pre g e w) (utterances w)"
proof -
  have "np_T (map (\<lambda>ob. map e (s1_row g w ob)) (objects w)) =
        map (\<lambda>i. map (\<lambda>ob. map e (s1_row g w ob) ! i) (objects w)) [0..<length (utterances w)]"
    using assms by (intro np_T_map) (simp_all add: s1_row_cells)
  also have "\<dots> = map (\<lambda>i. map (\<lambda>ob. e (s1_cell g w ob (utterances w ! i))) (objects w))
                      [0..<length (utterances w)]"
    by (simp add: s1_row_cells)
  also have "\<dots> = map (\<lambda>u. map (\<lambda>ob. e (s1_cell g w ob u)) (objects w)) (utterances w)"
    by (rule map_upt_nth)
  finally show ?thesis
    by (simp add: l1_pre_def)
qed

lemma l1_pre_matrix_intro:
  "objects w \<noteq> [] \<Longrightarrow>
   np_T (map (s1_row g w) (objects w)) = map (l1_pre g (\<lambda>p. p) w) (utterances w)"
  using l1_pre_matrix [of w "\<lambda>p. p" g] by simp

lemma pragmatic_listener_eq:
  assumes "distinct (map string (objects w))"
  shows "pragmatic_listener w utt =
     (if objects w = [] \<or> utterances w = [] then Inl AxisError
      else if utt \<in> set (utterances w)
      then Inr (l1_df (weight 1) add_eps w,
                \<lparr>vals = l1_row (weight 1) add_eps w utt, labels = map string (objects w),
                  name = utt\<rparr>)
      else Inl (KeyError utt))"
proof (cases "objects w = []")
  case True
  then show ?thesis by (simp add: pragmatic_listener_def)
next
  case obs: False
  show ?thesis
  proof (cases "utterances w = []")
    case True
    with obs show ?thesis
      by (simp add: pragmatic_listener_def listener_all_vals_no_utterance)
  next
    case False
    with obs assms show ?thesis
      by (simp add: pragmatic_listener_def listener_all_vals_eq l1_pre_matrix normalize_rows_map
          loc_case l1_df_def l1_row_def Let_def map_of_zip_map)
  qed
qed

lemma pragmatic_listener_intro_eq:
  assumes "distinct (map string (objects w))"
  shows "pragmatic_listener_intro w utt =
     (if objects w = [] \<or> utterances w = [] then Inl AxisError
      else if utt \<in> set (utterances w)
      then Inr (l1_df (weight_intro 1) (\<lambda>p. p) w,
                \<lparr>vals = l1_row (weight_intro 1) (\<lambda>p. p) w utt,
                  labels = map string (objects w), name = utt\<rparr>)
      else Inl (KeyError utt))"
proof (cases "objects w = []")
  case True
  then show ?thesis by (simp add: pragmatic_listener_intro_def)
next
  case obs: False
  show ?thesis
  proof (cases "utterances w = []")
    case True
    with obs show ?thesis
      by (simp add: pragmatic_listener_intro_def listener_all_vals_intro_no_utterance)
  next
    case False
    with obs assms show ?thesis
      by (simp add: pragmatic_listener_intro_def listener_all_vals_intro_eq l1_pre_matrix_intro
          normalize_rows_map loc_case l1_df_def l1_row_def Let_def map_of_zip_map)
  qed
qed

section \<open>Sums of rows inside the range\<close>

lemma one_in_range: "float_min < 1" "1 < float_max"
  using float_min_small float_max_large by simp_all

lemma ok_real_0 [simp]: "ok_real 0"
  using float_min_less_max float_min_pos by (simp add: ok_real_def)

lemma ok_real_1 [simp]: "ok_real 1"
  using one_in_range by (simp add: ok_real_def)

lemma sat_nonneg: "0 \<le> y \<Longrightarrow> 0 \<le> sat y"
  by (simp add: sat_def)

lemma sat_le: "0 \<le> y \<Longrightarrow> sat y \<le> y"
  by (simp add: sat_def)

lemma sat_ge: "y - float_min \<le> sat y"
  using float_min_pos by (simp add: sat_def)

lemma sat_id: "float_min < y \<Longrightarrow> sat y = y"
  by (simp add: sat_def)

lemma ok_real_sat: "0 \<le> y \<Longrightarrow> y < float_max \<Longrightarrow> ok_real (sat y)"
  using float_min_less_max float_min_pos by (simp add: sat_def ok_real_def)

lemma fl_rnd_sat: "0 \<le> y \<Longrightarrow> y < float_max \<Longrightarrow> fl_rnd y = Fin (sat y)"
  using float_min_pos by (simp add: fl_rnd_def sat_def)

lemma fl_rnd_ok_real: "ok_real x \<Longrightarrow> fl_rnd x = Fin x"
  using float_min_pos by (auto simp: fl_rnd_def ok_real_def)

lemma fl_ok_rnd: "0 \<le> x \<Longrightarrow> fl_ok (fl_rnd x)"
proof (cases "x < float_max")
  case True
  assume "0 \<le> x"
  with True show ?thesis by (simp add: fl_rnd_sat ok_real_sat)
next
  case False
  then show ?thesis by (simp add: fl_rnd_def)
qed

lemma ok_real_add:
  assumes "ok_real a" and "ok_real x" and "a + x < float_max"
  shows "ok_real (a + x)"
  using assms by (auto simp: ok_real_def)

lemma foldl_fl_add_PInf: "foldl fl_add PInf (map Fin xs) = PInf"
  by (induction xs) simp_all

lemma foldl_fl_add_ok:
  assumes "ok_real a" and "\<forall>x \<in> set xs. ok_real x"
  shows "foldl fl_add (Fin a) (map Fin xs) =
           (if a + sum_list xs < float_max then Fin (a + sum_list xs) else PInf)"
  using assms
proof (induction xs arbitrary: a)
  case Nil
  then show ?case by (simp add: ok_real_def)
next
  case (Cons x xs)
  from Cons.prems have x: "ok_real x" and xs: "\<forall>y \<in> set xs. ok_real y" by simp_all
  have nn: "0 \<le> sum_list xs"
    using xs by (intro sum_list_nonneg) (simp add: ok_real_def)
  show ?case
  proof (cases "a + x < float_max")
    case True
    with Cons.prems(1) x have ok: "ok_real (a + x)" by (intro ok_real_add)
    then have "fl_add (Fin a) (Fin x) = Fin (a + x)" by (simp add: fl_rnd_ok_real)
    with Cons.IH [OF ok xs] show ?thesis by (simp add: add.assoc)
  next
    case False
    then have "fl_add (Fin a) (Fin x) = PInf"
      by (simp add: fl_rnd_def)
    moreover from False nn have "\<not> a + (x + sum_list xs) < float_max" by linarith
    ultimately show ?thesis by (simp add: foldl_fl_add_PInf)
  qed
qed

lemma np_sum_ok:
  assumes "\<forall>x \<in> set xs. ok_real x"
  shows "np_sum (map Fin xs) = (if sum_list xs < float_max then Fin (sum_list xs) else PInf)"
  using foldl_fl_add_ok [OF ok_real_0 assms] by (simp add: np_sum_def)

lemma counts_row_no_referent:
  assumes "\<forall>ob \<in> set (objects w). \<not> meaning ob utt"
  shows "counts_row w utt = map Fin (replicate (length (objects w)) 0)"
  using assms by (simp add: counts_row_def map_replicate_const [symmetric])

lemma np_sum_zeros: "np_sum (map Fin (replicate n 0)) = Fin 0"
proof -
  have z: "sum_list (replicate n (0::real)) = 0" by (simp add: sum_list_replicate)
  have "\<forall>x \<in> set (replicate n (0::real)). ok_real x" by simp
  then have "np_sum (map Fin (replicate n 0)) =
      (if sum_list (replicate n (0::real)) < float_max then Fin (sum_list (replicate n 0)) else PInf)"
    by (rule np_sum_ok)
  also have "\<dots> = Fin 0"
    unfolding z using one_in_range by simp
  finally show ?thesis .
qed

lemma finite_ok_row_reals:
  assumes "list_all is_finite row" and "list_all fl_ok row"
  shows "\<exists>xs. row = map Fin xs \<and> (\<forall>x \<in> set xs. ok_real x)"
  using assms
proof (induction row)
  case Nil
  then show ?case by simp
next
  case (Cons v row)
  then obtain xs where xs: "row = map Fin xs" "\<forall>x \<in> set xs. ok_real x" by auto
  from Cons.prems obtain r where r: "v = Fin r" "ok_real r" by (cases v) simp_all
  with xs have "v # row = map Fin (r # xs) \<and> (\<forall>x \<in> set (r # xs). ok_real x)" by simp
  then show ?case by (rule exI)
qed

lemma sum_list_divide_real:
  fixes rs :: "real list"
  shows "sum_list (map (\<lambda>r. r / s) rs) = sum_list rs / s"
  by (induction rs) (simp_all add: add_divide_distrib)

lemma sum_list_sat_bounds:
  fixes ys :: "real list"
  assumes "\<forall>y \<in> set ys. 0 \<le> y"
  shows "sum_list (map sat ys) \<le> sum_list ys"
    and "sum_list ys - real (length ys) * float_min \<le> sum_list (map sat ys)"
  using assms
proof (induction ys)
  case Nil
  case 1 show ?case by simp
  case 2 show ?case by simp
next
  case (Cons y ys)
  case 1
  with Cons.IH(1) sat_le [of y] show ?case by simp
  case 2
  with Cons.IH(2) sat_ge [of y] show ?case by (simp add: algebra_simps)
qed

text \<open>The normalized row of an in-range row with a positive finite total.\<close>

lemma normalize_row_ok:
  assumes ok: "\<forall>x \<in> set xs. ok_real x" and pos: "0 < sum_list xs"
    and fin: "sum_list xs < float_max"
  shows "normalize_row (map Fin xs) = map Fin (map (\<lambda>x. sat (x / sum_list xs)) xs)"
proof -
  have "fl_div (Fin x) (Fin (sum_list xs)) = Fin (sat (x / sum_list xs))" if "x \<in> set xs" for x
  proof -
    from ok that have x: "0 \<le> x" by (simp add: ok_real_def)
    have "x \<le> sum_list xs"
      using ok that by (intro member_le_sum_list) (auto simp: ok_real_def)
    with pos have "x / sum_list xs \<le> 1" by simp
    with one_in_range have "x / sum_list xs < float_max" by linarith
    moreover from x pos have "0 \<le> x / sum_list xs" by simp
    ultimately show ?thesis using pos by (simp add: fl_rnd_sat)
  qed
  then show ?thesis
    using fin by (simp add: normalize_row_def np_sum_ok [OF ok])
qed

lemma float_min_le_tol: "float_min \<le> 1 / 2 ^ 50"
  by (simp add: float_min_def)

lemma normalize_row_sums_to_one:
  assumes fin: "list_all is_finite row" and ok: "list_all fl_ok row"
    and nz: "list_ex (\<lambda>x. x \<noteq> Fin 0) row" and tot: "is_finite (np_sum row)"
  shows "sums_to_one (normalize_row row)"
proof -
  from fin ok obtain xs where row: "row = map Fin xs" and xs: "\<forall>x \<in> set xs. ok_real x"
    using finite_ok_row_reals by blast
  let ?S = "sum_list xs"
  from tot have S: "?S < float_max"
    unfolding row np_sum_ok [OF xs] by (simp split: if_splits)
  from nz obtain x where x: "x \<in> set xs" "x \<noteq> 0"
    by (auto simp: row list_ex_iff)
  with xs have "0 < x" by (auto simp: ok_real_def)
  moreover have "x \<le> ?S"
    using xs x(1) by (intro member_le_sum_list) (auto simp: ok_real_def)
  ultimately have pos: "0 < ?S" by linarith
  let ?ys = "map (\<lambda>x. x / ?S) xs"
  have ysnn: "\<forall>y \<in> set ?ys. 0 \<le> y"
    using xs pos by (auto simp: ok_real_def)
  have ys1: "sum_list ?ys = 1"
    using pos by (simp add: sum_list_divide_real)
  have norm: "normalize_row row = map Fin (map sat ?ys)"
    unfolding row normalize_row_ok [OF xs pos S] by (simp add: comp_def)
  have le1: "sum_list (map sat ?ys) \<le> 1"
    using sum_list_sat_bounds(1) [OF ysnn] ys1 by simp
  have ge1: "1 - real (length xs) * float_min \<le> sum_list (map sat ?ys)"
    using sum_list_sat_bounds(2) [OF ysnn] ys1 by simp
  have okys: "\<forall>y \<in> set (map sat ?ys). ok_real y"
  proof
    fix z assume "z \<in> set (map sat ?ys)"
    then obtain y where y: "y \<in> set ?ys" "z = sat y" by auto
    with ysnn have y0: "0 \<le> y" by blast
    have "y \<le> sum_list ?ys" using ysnn y(1) by (intro member_le_sum_list) auto
    with ys1 one_in_range have "y < float_max" by linarith
    with y0 y(2) show "ok_real z" by (simp add: ok_real_sat)
  qed
  from le1 one_in_range have lt: "sum_list (map sat ?ys) < float_max" by linarith
  have "np_sum (map Fin (map sat ?ys)) =
      (if sum_list (map sat ?ys) < float_max then Fin (sum_list (map sat ?ys)) else PInf)"
    using okys by (rule np_sum_ok)
  with lt have sum: "np_sum (normalize_row row) = Fin (sum_list (map sat ?ys))"
    unfolding norm by (simp only: if_True)
  have "real (length xs) * float_min \<le> real (length xs) * (1 / 2 ^ 50)"
    using float_min_le_tol by (intro mult_left_mono) simp_all
  with le1 ge1 have "\<bar>sum_list (map sat ?ys) - 1\<bar> \<le> real (length xs) / 2 ^ 50"
    by (simp add: abs_le_iff) 
  then show ?thesis
    unfolding sums_to_one_def sum by (simp add: row normalize_row_def)
qed

section \<open>The values before normalization are in range\<close>

lemma ok_real_nonneg: "ok_real a \<Longrightarrow> 0 \<le> a"
  by (simp add: ok_real_def)

lemma fl_ok_exp: "fl_ok (fl_exp x)"
proof (cases x)
  case (Fin a)
  have "fl_ok (fl_rnd (exp a))" by (rule fl_ok_rnd) simp
  with Fin show ?thesis by simp
qed simp_all

lemma fl_ok_add: "fl_ok x \<Longrightarrow> fl_ok y \<Longrightarrow> fl_ok (fl_add x y)"
proof (cases x; cases y)
  fix a b assume "x = Fin a" "y = Fin b" "fl_ok x" "fl_ok y"
  then show ?thesis by (simp add: fl_ok_rnd ok_real_nonneg)
qed simp_all

lemma fl_ok_div: "fl_ok x \<Longrightarrow> fl_ok y \<Longrightarrow> fl_ok (fl_div x y)"
proof (cases x; cases y)
  fix a b assume "x = Fin a" "y = Fin b" "fl_ok x" "fl_ok y"
  then show ?thesis by (auto simp: fl_ok_rnd ok_real_def)
qed (simp_all add: ok_real_def)

lemma fl_ok_foldl:
  "fl_ok a \<Longrightarrow> list_all fl_ok xs \<Longrightarrow> fl_ok (foldl fl_add a xs)"
  by (induction xs arbitrary: a) (simp_all add: fl_ok_add)

lemma fl_ok_np_sum: "list_all fl_ok xs \<Longrightarrow> fl_ok (np_sum xs)"
  by (simp add: np_sum_def fl_ok_foldl)

lemma fl_ok_counts_row: "list_all fl_ok (counts_row w u)"
  by (auto simp: counts_row_def list_all_iff)

lemma fl_ok_weight: "fl_ok (weight alpha p)"
  by (simp add: weight_def fl_ok_exp)

lemma fl_ok_weight_intro: "fl_ok (weight_intro alpha p)"
  by (simp add: weight_intro_def fl_ok_exp)

lemma fl_ok_s1_pre: "(\<And>p. fl_ok (g p)) \<Longrightarrow> list_all fl_ok (s1_pre g w ob)"
  by (simp add: s1_pre_def list_all_iff)

lemma fl_ok_s1_cell: "(\<And>p. fl_ok (g p)) \<Longrightarrow> fl_ok (s1_cell g w ob u)"
  by (simp add: s1_cell_def fl_ok_div fl_ok_np_sum fl_ok_s1_pre)

lemma ok_real_epsilon_listener: "ok_real epsilon_listener"
  using float_min_small float_max_large by (simp add: ok_real_def epsilon_listener_def)

lemma fl_ok_add_eps: "fl_ok p \<Longrightarrow> fl_ok (add_eps p)"
  by (simp add: add_eps_def fl_ok_add ok_real_epsilon_listener)

lemma fl_ok_l1_pre:
  "(\<And>p. fl_ok (g p)) \<Longrightarrow> (\<And>p. fl_ok p \<Longrightarrow> fl_ok (e p)) \<Longrightarrow>
   list_all fl_ok (l1_pre g e w u)"
  by (simp add: l1_pre_def list_all_iff fl_ok_s1_cell)

section \<open>Non-degenerate rows sum to one\<close>

lemma l0_row_sum:
  assumes "nondegenerate_row (all_counts w) i"
  shows "\<exists>df probs. literal_listener w (utterances w ! i) = Inr (df, probs) \<and>
           sums_to_one (vals probs)"
proof -
  from assms have i: "i < length (utterances w)"
    by (simp add: nondegenerate_row_def all_counts_map)
  with assms have "list_all is_finite (counts_row w (utterances w ! i))"
    and "list_ex (\<lambda>x. x \<noteq> Fin 0) (counts_row w (utterances w ! i))"
    and "is_finite (np_sum (counts_row w (utterances w ! i)))"
    by (simp_all add: nondegenerate_row_def all_counts_map)
  then have "sums_to_one (l0_row w (utterances w ! i))"
    unfolding l0_row_def using fl_ok_counts_row by (intro normalize_row_sums_to_one)
  with i show ?thesis by (simp add: literal_listener_eq)
qed

lemma s1_row_sum:
  assumes g: "\<And>p. fl_ok (g p)"
    and nd: "nondegenerate_row (np_T (map (\<lambda>u. map g (l0_row w u)) (utterances w))) j"
  shows "utterances w \<noteq> [] \<and> j < length (objects w) \<and>
         sums_to_one (s1_row g w (objects w ! j))"
proof -
  have us: "utterances w \<noteq> []"
  proof
    assume "utterances w = []"
    with nd show False by (simp add: nondegenerate_row_def np_T_def)
  qed
  from nd have j: "j < length (objects w)"
    by (simp add: nondegenerate_row_def s1_pre_matrix [OF us])
  with nd have "list_all is_finite (s1_pre g w (objects w ! j))"
    and "list_ex (\<lambda>x. x \<noteq> Fin 0) (s1_pre g w (objects w ! j))"
    and "is_finite (np_sum (s1_pre g w (objects w ! j)))"
    by (simp_all add: nondegenerate_row_def s1_pre_matrix [OF us])
  then have "sums_to_one (s1_row g w (objects w ! j))"
    unfolding s1_row_def using fl_ok_s1_pre [of g, OF g] by (intro normalize_row_sums_to_one)
  with us j show ?thesis by simp
qed

lemma l1_row_sum:
  assumes g: "\<And>p. fl_ok (g p)" and e: "\<And>p. fl_ok p \<Longrightarrow> fl_ok (e p)"
    and os: "objects w \<noteq> []"
    and nd: "nondegenerate_row (np_T (map (\<lambda>ob. map e (s1_row g w ob)) (objects w))) i"
  shows "i < length (utterances w) \<and> sums_to_one (l1_row g e w (utterances w ! i))"
proof -
  from nd have i: "i < length (utterances w)"
    by (simp add: nondegenerate_row_def l1_pre_matrix [OF os])
  with nd have "list_all is_finite (l1_pre g e w (utterances w ! i))"
    and "list_ex (\<lambda>x. x \<noteq> Fin 0) (l1_pre g e w (utterances w ! i))"
    and "is_finite (np_sum (l1_pre g e w (utterances w ! i)))"
    by (simp_all add: nondegenerate_row_def l1_pre_matrix [OF os])
  then have "sums_to_one (l1_row g e w (utterances w ! i))"
    unfolding l1_row_def using fl_ok_l1_pre [of g e, OF g e]
    by (intro normalize_row_sums_to_one)
  with i show ?thesis by simp
qed

lemma speaker_row_sum:
  assumes d: "distinct_labels w"
    and sv: "speaker_all_vals w alpha (utterances w) = Inr sv"
    and nd: "nondegenerate_row (np_T sv) j"
  shows "\<exists>df probs. pragmatic_speaker w (objects w ! j) alpha = Inr (df, probs) \<and>
           sums_to_one (vals probs)"
proof -
  from sv have "sv = map (\<lambda>u. map (weight alpha) (l0_row w u)) (utterances w)"
    by (simp add: speaker_all_vals_eq)
  with nd have "utterances w \<noteq> [] \<and> j < length (objects w) \<and>
      sums_to_one (s1_row (weight alpha) w (objects w ! j))"
    by (intro s1_row_sum fl_ok_weight) simp
  with d show ?thesis
    by (simp add: pragmatic_speaker_eq find_label distinct_labels_def)
qed

lemma speaker_intro_row_sum:
  assumes d: "distinct_labels w"
    and sv: "speaker_all_vals_intro w alpha (utterances w) = Inr sv"
    and nd: "nondegenerate_row (np_T sv) j"
  shows "\<exists>df probs. pragmatic_speaker_intro w (objects w ! j) alpha = Inr (df, probs) \<and>
           sums_to_one (vals probs)"
proof -
  from sv have "sv = map (\<lambda>u. map (weight_intro alpha) (l0_row w u)) (utterances w)"
    by (simp add: speaker_all_vals_intro_eq)
  with nd have "utterances w \<noteq> [] \<and> j < length (objects w) \<and>
      sums_to_one (s1_row (weight_intro alpha) w (objects w ! j))"
    by (intro s1_row_sum fl_ok_weight_intro) simp
  with d show ?thesis
    by (simp add: pragmatic_speaker_intro_eq find_label distinct_labels_def)
qed

lemma listener_row_sum:
  assumes d: "distinct_labels w"
    and lv: "listener_all_vals w (objects w) = Inr lv"
    and nd: "nondegenerate_row (np_T lv) i"
  shows "\<exists>df probs. pragmatic_listener w (utterances w ! i) = Inr (df, probs) \<and>
           sums_to_one (vals probs)"
proof -
  from d have dl: "distinct (map string (objects w))" by (simp add: distinct_labels_def)
  have os: "objects w \<noteq> []"
  proof
    assume "objects w = []"
    with lv nd show False by (simp add: nondegenerate_row_def np_T_def)
  qed
  have us: "utterances w \<noteq> []"
  proof
    assume "utterances w = []"
    with os lv show False by (simp add: listener_all_vals_no_utterance)
  qed
  from lv have "lv = map (\<lambda>ob. map add_eps (s1_row (weight 1) w ob)) (objects w)"
    by (simp add: listener_all_vals_eq [OF us dl])
  with nd os have "i < length (utterances w) \<and>
      sums_to_one (l1_row (weight 1) add_eps w (utterances w ! i))"
    by (intro l1_row_sum fl_ok_weight fl_ok_add_eps) simp_all
  with os us show ?thesis
    by (simp add: pragmatic_listener_eq [OF dl])
qed

lemma listener_intro_row_sum:
  assumes d: "distinct_labels w"
    and lv: "listener_all_vals_intro w (objects w) = Inr lv"
    and nd: "nondegenerate_row (np_T lv) i"
  shows "\<exists>df probs. pragmatic_listener_intro w (utterances w ! i) = Inr (df, probs) \<and>
           sums_to_one (vals probs)"
proof -
  from d have dl: "distinct (map string (objects w))" by (simp add: distinct_labels_def)
  have os: "objects w \<noteq> []"
  proof
    assume "objects w = []"
    with lv nd show False by (simp add: nondegenerate_row_def np_T_def)
  qed
  have us: "utterances w \<noteq> []"
  proof
    assume "utterances w = []"
    with os lv show False by (simp add: listener_all_vals_intro_no_utterance)
  qed
  from lv have "lv = map (\<lambda>ob. map (\<lambda>p. p) (s1_row (weight_intro 1) w ob)) (objects w)"
    by (simp add: listener_all_vals_intro_eq [OF us dl])
  with nd os have "i < length (utterances w) \<and>
      sums_to_one (l1_row (weight_intro 1) (\<lambda>p. p) w (utterances w ! i))"
    by (intro l1_row_sum fl_ok_weight_intro) simp_all
  with os us show ?thesis
    by (simp add: pragmatic_listener_intro_eq [OF dl])
qed

section \<open>Rows sum to one\<close>

text \<open>
  Claim C1, as amended. In a world with distinct labels, take a row of the matrix that a
  stage hands to \<^verbatim>\<open>normalize_rows\<close> (\<^verbatim>\<open>all_counts\<close> in \<^verbatim>\<open>literal_listener\<close>,
  \<^verbatim>\<open>np.array(all_vals).T\<close> in \<^verbatim>\<open>pragmatic_speaker\<close> and \<^verbatim>\<open>pragmatic_listener\<close>) whose
  entries are all finite numbers and not all zero, and whose total, as \<^verbatim>\<open>np.sum\<close>
  computes it, is finite (the sum does not overflow). Then the stage called with the
  row's label returns a distribution whose values sum to 1 within the tolerance
  \<open>n / 2^50\<close> for \<open>n\<close> values. This holds for the three stages of both notebooks and
  every \<^verbatim>\<open>alpha\<close>.
\<close>

theorem row_sum_one:
  assumes "distinct_labels w"
  shows "(nondegenerate_row (all_counts w) i \<longrightarrow>
            (\<exists>df probs. literal_listener w (utterances w ! i) = Inr (df, probs) \<and>
               sums_to_one (vals probs))) \<and>
         (speaker_all_vals w alpha (utterances w) = Inr sv \<and> nondegenerate_row (np_T sv) j \<longrightarrow>
            (\<exists>df probs. pragmatic_speaker w (objects w ! j) alpha = Inr (df, probs) \<and>
               sums_to_one (vals probs))) \<and>
         (speaker_all_vals_intro w alpha (utterances w) = Inr svi \<and>
          nondegenerate_row (np_T svi) j \<longrightarrow>
            (\<exists>df probs. pragmatic_speaker_intro w (objects w ! j) alpha = Inr (df, probs) \<and>
               sums_to_one (vals probs))) \<and>
         (listener_all_vals w (objects w) = Inr lv \<and> nondegenerate_row (np_T lv) i \<longrightarrow>
            (\<exists>df probs. pragmatic_listener w (utterances w ! i) = Inr (df, probs) \<and>
               sums_to_one (vals probs))) \<and>
         (listener_all_vals_intro w (objects w) = Inr lvi \<and> nondegenerate_row (np_T lvi) i \<longrightarrow>
            (\<exists>df probs. pragmatic_listener_intro w (utterances w ! i) = Inr (df, probs) \<and>
               sums_to_one (vals probs)))"
  using assms l0_row_sum speaker_row_sum speaker_intro_row_sum listener_row_sum
    listener_intro_row_sum
  by blast

theorem row_sum_one_witness:
  "distinct_labels canonical \<and>
   nondegenerate_row (all_counts canonical) 2 \<and>
   (\<exists>df probs. literal_listener canonical (utterances canonical ! 2) = Inr (df, probs) \<and>
      sums_to_one (vals probs)) \<and>
   speaker_all_vals canonical 1 (utterances canonical) =
     Inr [[Fin (500000001 / 1000000000), Fin (500000001 / 1000000000), Fin (1 / 1000000000)],
          [Fin (1 / 1000000000), Fin (1 / 1000000000), Fin (1000000001 / 1000000000)],
          [Fin (500000001 / 1000000000), Fin (1 / 1000000000), Fin (500000001 / 1000000000)],
          [Fin (1 / 1000000000), Fin (1000000001 / 1000000000), Fin (1 / 1000000000)]] \<and>
   nondegenerate_row
     (np_T [[Fin (500000001 / 1000000000), Fin (500000001 / 1000000000), Fin (1 / 1000000000)],
            [Fin (1 / 1000000000), Fin (1 / 1000000000), Fin (1000000001 / 1000000000)],
            [Fin (500000001 / 1000000000), Fin (1 / 1000000000), Fin (500000001 / 1000000000)],
            [Fin (1 / 1000000000), Fin (1000000001 / 1000000000), Fin (1 / 1000000000)]]) 0 \<and>
   (\<exists>df probs. pragmatic_speaker canonical (objects canonical ! 0) 1 = Inr (df, probs) \<and>
      sums_to_one (vals probs)) \<and>
   speaker_all_vals_intro canonical 1 (utterances canonical) =
     Inr [[Fin (1 / 2), Fin (1 / 2), Fin 0], [Fin 0, Fin 0, Fin 1],
          [Fin (1 / 2), Fin 0, Fin (1 / 2)], [Fin 0, Fin 1, Fin 0]] \<and>
   nondegenerate_row
     (np_T [[Fin (1 / 2), Fin (1 / 2), Fin 0], [Fin 0, Fin 0, Fin 1],
            [Fin (1 / 2), Fin 0, Fin (1 / 2)], [Fin 0, Fin 1, Fin 0]]) 0 \<and>
   (\<exists>df probs. pragmatic_speaker_intro canonical (objects canonical ! 0) 1 = Inr (df, probs) \<and>
      sums_to_one (vals probs)) \<and>
   listener_all_vals_intro canonical (objects canonical) =
     Inr [[Fin (1 / 2), Fin 0, Fin (1 / 2), Fin 0], [Fin (1 / 3), Fin 0, Fin 0, Fin (2 / 3)],
          [Fin 0, Fin (2 / 3), Fin (1 / 3), Fin 0]] \<and>
   nondegenerate_row
     (np_T [[Fin (1 / 2), Fin 0, Fin (1 / 2), Fin 0], [Fin (1 / 3), Fin 0, Fin 0, Fin (2 / 3)],
            [Fin 0, Fin (2 / 3), Fin (1 / 3), Fin 0]]) 2 \<and>
   (\<exists>df probs. pragmatic_listener_intro canonical (utterances canonical ! 2) = Inr (df, probs) \<and>
      sums_to_one (vals probs)) \<and>
   listener_all_vals canonical (objects canonical) =
     Inr [[Fin (1250000252500001 / 2500000010000000), Fin (252500001 / 2500000010000000),
           Fin (1250000252500001 / 2500000010000000), Fin (252500001 / 2500000010000000)],
          [Fin (1250000377500001 / 3750000010000000), Fin (377500001 / 3750000010000000),
           Fin (377500001 / 3750000010000000), Fin (2500000377500001 / 3750000010000000)],
          [Fin (377500001 / 3750000010000000), Fin (2500000377500001 / 3750000010000000),
           Fin (1250000377500001 / 3750000010000000), Fin (377500001 / 3750000010000000)]] \<and>
   nondegenerate_row
     (np_T [[Fin (1250000252500001 / 2500000010000000), Fin (252500001 / 2500000010000000),
             Fin (1250000252500001 / 2500000010000000), Fin (252500001 / 2500000010000000)],
            [Fin (1250000377500001 / 3750000010000000), Fin (377500001 / 3750000010000000),
             Fin (377500001 / 3750000010000000), Fin (2500000377500001 / 3750000010000000)],
            [Fin (377500001 / 3750000010000000), Fin (2500000377500001 / 3750000010000000),
             Fin (1250000377500001 / 3750000010000000), Fin (377500001 / 3750000010000000)]]) 2 \<and>
   (\<exists>df probs. pragmatic_listener canonical (utterances canonical ! 2) = Inr (df, probs) \<and>
      sums_to_one (vals probs))"
proof -
  have d: "distinct_labels canonical"
    by (simp add: distinct_labels_def canonical_def)
  have c: "nondegenerate_row (all_counts canonical) 2"
    by (simp add: nondegenerate_row_def canonical_eval)
  have sv: "speaker_all_vals canonical 1 (utterances canonical) =
     Inr [[Fin (500000001 / 1000000000), Fin (500000001 / 1000000000), Fin (1 / 1000000000)],
          [Fin (1 / 1000000000), Fin (1 / 1000000000), Fin (1000000001 / 1000000000)],
          [Fin (500000001 / 1000000000), Fin (1 / 1000000000), Fin (500000001 / 1000000000)],
          [Fin (1 / 1000000000), Fin (1000000001 / 1000000000), Fin (1 / 1000000000)]]"
    by (simp add: stage_eval)
  have svn: "nondegenerate_row
     (np_T [[Fin (500000001 / 1000000000), Fin (500000001 / 1000000000), Fin (1 / 1000000000)],
            [Fin (1 / 1000000000), Fin (1 / 1000000000), Fin (1000000001 / 1000000000)],
            [Fin (500000001 / 1000000000), Fin (1 / 1000000000), Fin (500000001 / 1000000000)],
            [Fin (1 / 1000000000), Fin (1000000001 / 1000000000), Fin (1 / 1000000000)]]) 0"
    by (simp add: nondegenerate_row_def np_T_def np_sum_def fl_eval)
  have svi: "speaker_all_vals_intro canonical 1 (utterances canonical) =
     Inr [[Fin (1 / 2), Fin (1 / 2), Fin 0], [Fin 0, Fin 0, Fin 1],
          [Fin (1 / 2), Fin 0, Fin (1 / 2)], [Fin 0, Fin 1, Fin 0]]"
    by (simp add: stage_eval)
  have svin: "nondegenerate_row
     (np_T [[Fin (1 / 2), Fin (1 / 2), Fin 0], [Fin 0, Fin 0, Fin 1],
            [Fin (1 / 2), Fin 0, Fin (1 / 2)], [Fin 0, Fin 1, Fin 0]]) 0"
    by (simp add: nondegenerate_row_def np_T_def np_sum_def fl_eval)
  have lvi: "listener_all_vals_intro canonical (objects canonical) =
     Inr [[Fin (1 / 2), Fin 0, Fin (1 / 2), Fin 0], [Fin (1 / 3), Fin 0, Fin 0, Fin (2 / 3)],
          [Fin 0, Fin (2 / 3), Fin (1 / 3), Fin 0]]"
    by (simp add: stage_eval)
  have lvin: "nondegenerate_row
     (np_T [[Fin (1 / 2), Fin 0, Fin (1 / 2), Fin 0], [Fin (1 / 3), Fin 0, Fin 0, Fin (2 / 3)],
            [Fin 0, Fin (2 / 3), Fin (1 / 3), Fin 0]]) 2"
    by (simp add: nondegenerate_row_def np_T_def np_sum_def fl_eval)
  have lv: "listener_all_vals canonical (objects canonical) =
     Inr [[Fin (1250000252500001 / 2500000010000000), Fin (252500001 / 2500000010000000),
           Fin (1250000252500001 / 2500000010000000), Fin (252500001 / 2500000010000000)],
          [Fin (1250000377500001 / 3750000010000000), Fin (377500001 / 3750000010000000),
           Fin (377500001 / 3750000010000000), Fin (2500000377500001 / 3750000010000000)],
          [Fin (377500001 / 3750000010000000), Fin (2500000377500001 / 3750000010000000),
           Fin (1250000377500001 / 3750000010000000), Fin (377500001 / 3750000010000000)]]"
    by (simp add: stage_eval)
  have lvn: "nondegenerate_row
     (np_T [[Fin (1250000252500001 / 2500000010000000), Fin (252500001 / 2500000010000000),
             Fin (1250000252500001 / 2500000010000000), Fin (252500001 / 2500000010000000)],
            [Fin (1250000377500001 / 3750000010000000), Fin (377500001 / 3750000010000000),
             Fin (377500001 / 3750000010000000), Fin (2500000377500001 / 3750000010000000)],
            [Fin (377500001 / 3750000010000000), Fin (2500000377500001 / 3750000010000000),
             Fin (1250000377500001 / 3750000010000000), Fin (377500001 / 3750000010000000)]]) 2"
    by (simp add: nondegenerate_row_def np_T_def np_sum_def fl_eval)
  note r = row_sum_one [OF d, of 2 1 _ 0 _ _ _]
  from r c have "\<exists>df probs. literal_listener canonical (utterances canonical ! 2) = Inr (df, probs) \<and>
      sums_to_one (vals probs)" by blast
  moreover from r sv svn
  have "\<exists>df probs. pragmatic_speaker canonical (objects canonical ! 0) 1 = Inr (df, probs) \<and>
      sums_to_one (vals probs)" by blast
  moreover from r svi svin
  have "\<exists>df probs. pragmatic_speaker_intro canonical (objects canonical ! 0) 1 = Inr (df, probs) \<and>
      sums_to_one (vals probs)" by blast
  moreover from r lv lvn
  have "\<exists>df probs. pragmatic_listener canonical (utterances canonical ! 2) = Inr (df, probs) \<and>
      sums_to_one (vals probs)" by blast
  moreover from r lvi lvin
  have "\<exists>df probs. pragmatic_listener_intro canonical (utterances canonical ! 2) = Inr (df, probs) \<and>
      sums_to_one (vals probs)" by blast
  ultimately show ?thesis
    using d c sv svn svi svin lv lvn lvi lvin by blast
qed

text \<open>
  Claim C1 as stated asks only for one non-zero entry in the row before normalization.
  That is not enough: in the canonical world with the additional utterance \<^verbatim>\<open>"red"\<close>
  (true of no object) the literal listener's row for \<^verbatim>\<open>"red"\<close> is NaN, so the row of
  the registered state blue square before normalization in \<^verbatim>\<open>pragmatic_speaker\<close> holds
  four non-zero numbers and one NaN, its total is NaN, and the returned distribution is
  NaN throughout: it does not sum to 1.
\<close>

theorem row_sum_one_counterexample:
  "distinct_labels world_red \<and>
   objects world_red ! 0 = blue_square \<and>
   map_sum id (\<lambda>sv. np_T sv ! 0) (speaker_all_vals world_red 1 (utterances world_red)) =
     Inr [Fin (500000001 / 1000000000), Fin (1 / 1000000000), Fin (500000001 / 1000000000),
          Fin (1 / 1000000000), NaN] \<and>
   list_ex (\<lambda>x. x \<noteq> Fin 0)
     [Fin (500000001 / 1000000000), Fin (1 / 1000000000), Fin (500000001 / 1000000000),
      Fin (1 / 1000000000), NaN] \<and>
   map_sum id (\<lambda>(df, probs). vals probs) (pragmatic_speaker world_red blue_square 1) =
     Inr [NaN, NaN, NaN, NaN, NaN] \<and>
   np_sum [NaN, NaN, NaN, NaN, NaN] = NaN \<and> NaN \<noteq> Fin 1"
  by (simp add: stage_eval world_red_def blue_square_def distinct_labels_def)

section \<open>The canonical world, evaluated\<close>

text \<open>
  Claim C5. In the canonical world of three objects and four utterances,
  \<^verbatim>\<open>literal_listener("square")\<close> returns the full table of the notebook's output and the
  distribution blue square: 0.5, blue circle: 0.0, green square: 0.5.
\<close>

theorem literal_listener_square:
  "literal_listener canonical ''square'' =
     Inr (\<lparr>data = [[Fin (1 / 2), Fin (1 / 2), Fin 0],
                   [Fin 0, Fin 0, Fin 1],
                   [Fin (1 / 2), Fin 0, Fin (1 / 2)],
                   [Fin 0, Fin 1, Fin 0]],
            index = [''blue'', ''green'', ''square'', ''circle''],
            columns = [''blue square'', ''blue circle'', ''green square'']\<rparr>,
          \<lparr>vals = [Fin (1 / 2), Fin 0, Fin (1 / 2)],
            labels = [''blue square'', ''blue circle'', ''green square''],
            name = ''square''\<rparr>)"
  by (simp add: canonical_eval)

section \<open>Rows selected from the returned tables\<close>

lemma loc_l0_df:
  "u \<in> set (utterances w) \<Longrightarrow>
   loc (l0_df w) u = Inr \<lparr>vals = l0_row w u, labels = map string (objects w), name = u\<rparr>"
  by (simp add: loc_def l0_df_def map_of_zip_map)

lemma loc_s1_df:
  "distinct (map string (objects w)) \<Longrightarrow> ob \<in> set (objects w) \<Longrightarrow>
   loc (s1_df g w) (string ob) = Inr \<lparr>vals = s1_row g w ob, labels = utterances w, name = string ob\<rparr>"
  by (simp add: loc_def s1_df_def map_of_zip_maps find_label)

lemma loc_l1_df:
  "u \<in> set (utterances w) \<Longrightarrow>
   loc (l1_df g e w) u = Inr \<lparr>vals = l1_row g e w u, labels = map string (objects w), name = u\<rparr>"
  by (simp add: loc_def l1_df_def map_of_zip_map)

section \<open>Queries outside the registered sets\<close>

text \<open>
  Claim C7. A query key that is not registered makes the operation fail with an error
  instead of returning a row: an utterance that is not in \<^verbatim>\<open>utterances\<close> for
  \<^verbatim>\<open>literal_listener\<close> and \<^verbatim>\<open>pragmatic_listener\<close>, an object whose display string
  is not the string of a registered object for \<^verbatim>\<open>pragmatic_speaker\<close>. The error is the
  \<^verbatim>\<open>KeyError\<close> of \<^verbatim>\<open>df.loc\<close> naming the key; in a world with no utterance or no
  object the pragmatic stages fail earlier, with AxisError. Both notebooks behave alike.
\<close>

theorem invalid_key_fails:
  assumes "distinct_labels w"
    and "utt \<notin> set (utterances w)"
    and "string ob \<notin> set (map string (objects w))"
  shows "literal_listener w utt = Inl (KeyError utt) \<and>
         pragmatic_speaker w ob alpha =
           Inl (if utterances w = [] then AxisError else KeyError (string ob)) \<and>
         pragmatic_speaker_intro w ob alpha =
           Inl (if utterances w = [] then AxisError else KeyError (string ob)) \<and>
         pragmatic_listener w utt =
           Inl (if objects w = [] \<or> utterances w = [] then AxisError else KeyError utt) \<and>
         pragmatic_listener_intro w utt =
           Inl (if objects w = [] \<or> utterances w = [] then AxisError else KeyError utt)"
proof -
  from assms(1) have d: "distinct (map string (objects w))"
    by (simp add: distinct_labels_def)
  from assms(3) have f: "find (\<lambda>x. string x = string ob) (objects w) = None"
    by (rule find_no_label)
  show ?thesis
    using assms(2) f
    by (simp add: literal_listener_eq pragmatic_speaker_eq pragmatic_speaker_intro_eq
        pragmatic_listener_eq [OF d] pragmatic_listener_intro_eq [OF d])
qed

theorem invalid_key_fails_witness:
  "distinct_labels canonical \<and> ''red'' \<notin> set (utterances canonical) \<and>
   string red_circle \<notin> set (map string (objects canonical)) \<and>
   literal_listener canonical ''red'' = Inl (KeyError ''red'') \<and>
   pragmatic_speaker canonical red_circle 1 = Inl (KeyError ''red circle'') \<and>
   pragmatic_speaker_intro canonical red_circle 1 = Inl (KeyError ''red circle'') \<and>
   pragmatic_listener canonical ''red'' = Inl (KeyError ''red'') \<and>
   pragmatic_listener_intro canonical ''red'' = Inl (KeyError ''red'')"
  using invalid_key_fails [of canonical "''red''" red_circle 1]
  by (simp add: distinct_labels_def canonical_def red_circle_def)

section \<open>The full table does not depend on the query\<close>

text \<open>
  Claim C9. For two registered utterances the listeners return the same full table, and
  for two registered states and one \<^verbatim>\<open>alpha\<close> the speaker returns the same full table;
  the argument only selects the row returned as second component (it is \<^verbatim>\<open>df.loc\<close> of
  that same table at the argument).
\<close>

theorem full_table_independent_of_query:
  assumes "distinct_labels w"
    and "u1 \<in> set (utterances w)" and "u2 \<in> set (utterances w)"
    and "s1 \<in> set (objects w)" and "s2 \<in> set (objects w)"
  shows "(\<exists>df r1 r2. literal_listener w u1 = Inr (df, r1) \<and> literal_listener w u2 = Inr (df, r2) \<and>
            loc df u1 = Inr r1 \<and> loc df u2 = Inr r2) \<and>
         (\<exists>df r1 r2. pragmatic_speaker w s1 alpha = Inr (df, r1) \<and>
            pragmatic_speaker w s2 alpha = Inr (df, r2) \<and>
            loc df (string s1) = Inr r1 \<and> loc df (string s2) = Inr r2) \<and>
         (\<exists>df r1 r2. pragmatic_speaker_intro w s1 alpha = Inr (df, r1) \<and>
            pragmatic_speaker_intro w s2 alpha = Inr (df, r2) \<and>
            loc df (string s1) = Inr r1 \<and> loc df (string s2) = Inr r2) \<and>
         (\<exists>df r1 r2. pragmatic_listener w u1 = Inr (df, r1) \<and> pragmatic_listener w u2 = Inr (df, r2) \<and>
            loc df u1 = Inr r1 \<and> loc df u2 = Inr r2) \<and>
         (\<exists>df r1 r2. pragmatic_listener_intro w u1 = Inr (df, r1) \<and>
            pragmatic_listener_intro w u2 = Inr (df, r2) \<and>
            loc df u1 = Inr r1 \<and> loc df u2 = Inr r2)"
proof -
  from assms(1) have d: "distinct (map string (objects w))"
    by (simp add: distinct_labels_def)
  from assms(2) have us: "utterances w \<noteq> []" by auto
  from assms(4) have os: "objects w \<noteq> []" by auto
  have l0: "\<exists>df r1 r2. literal_listener w u1 = Inr (df, r1) \<and> literal_listener w u2 = Inr (df, r2) \<and>
            loc df u1 = Inr r1 \<and> loc df u2 = Inr r2"
    using assms(2,3) by (simp add: literal_listener_eq loc_l0_df)
  have sp: "\<exists>df r1 r2. pragmatic_speaker w s1 alpha = Inr (df, r1) \<and>
            pragmatic_speaker w s2 alpha = Inr (df, r2) \<and>
            loc df (string s1) = Inr r1 \<and> loc df (string s2) = Inr r2"
    using assms(4,5) us d by (simp add: pragmatic_speaker_eq find_label loc_s1_df)
  have spi: "\<exists>df r1 r2. pragmatic_speaker_intro w s1 alpha = Inr (df, r1) \<and>
            pragmatic_speaker_intro w s2 alpha = Inr (df, r2) \<and>
            loc df (string s1) = Inr r1 \<and> loc df (string s2) = Inr r2"
    using assms(4,5) us d by (simp add: pragmatic_speaker_intro_eq find_label loc_s1_df)
  have l1: "\<exists>df r1 r2. pragmatic_listener w u1 = Inr (df, r1) \<and> pragmatic_listener w u2 = Inr (df, r2) \<and>
            loc df u1 = Inr r1 \<and> loc df u2 = Inr r2"
    using assms(2,3) us os by (simp add: pragmatic_listener_eq [OF d] loc_l1_df)
  have l1i: "\<exists>df r1 r2. pragmatic_listener_intro w u1 = Inr (df, r1) \<and>
            pragmatic_listener_intro w u2 = Inr (df, r2) \<and>
            loc df u1 = Inr r1 \<and> loc df u2 = Inr r2"
    using assms(2,3) us os by (simp add: pragmatic_listener_intro_eq [OF d] loc_l1_df)
  from l0 sp spi l1 l1i show ?thesis by blast
qed

theorem full_table_independent_of_query_witness:
  "distinct_labels canonical \<and>
   ''blue'' \<in> set (utterances canonical) \<and> ''square'' \<in> set (utterances canonical) \<and>
   blue_square \<in> set (objects canonical) \<and>
   (\<exists>df r1 r2. literal_listener canonical ''blue'' = Inr (df, r1) \<and>
      literal_listener canonical ''square'' = Inr (df, r2) \<and>
      loc df ''blue'' = Inr r1 \<and> loc df ''square'' = Inr r2) \<and>
   (\<exists>df r1 r2. pragmatic_speaker canonical blue_square 1 = Inr (df, r1) \<and>
      pragmatic_speaker canonical blue_square 1 = Inr (df, r2) \<and>
      loc df (string blue_square) = Inr r1 \<and> loc df (string blue_square) = Inr r2) \<and>
   (\<exists>df r1 r2. pragmatic_listener canonical ''blue'' = Inr (df, r1) \<and>
      pragmatic_listener canonical ''square'' = Inr (df, r2) \<and>
      loc df ''blue'' = Inr r1 \<and> loc df ''square'' = Inr r2)"
proof -
  have d: "distinct_labels canonical"
    by (simp add: distinct_labels_def canonical_def)
  have u1: "''blue'' \<in> set (utterances canonical)"
    and u2: "''square'' \<in> set (utterances canonical)"
    by (simp_all add: canonical_def)
  have s: "blue_square \<in> set (objects canonical)"
    by (simp add: canonical_def blue_square_def)
  from full_table_independent_of_query [OF d u1 u2 s s, of 1] d u1 u2 s
  show ?thesis by blast
qed

section \<open>An utterance that is true of no object\<close>

text \<open>
  Claim C8. If an utterance of the world is literally true of no registered object, its
  row of the truth matrix \<^verbatim>\<open>all_counts\<close> sums to 0, \<^verbatim>\<open>normalize_rows\<close> divides 0 by 0,
  which is NaN, and \<^verbatim>\<open>literal_listener\<close> returns normally (no guard, no error) a row
  whose entries are all NaN, one for every object.
\<close>

theorem literal_listener_no_referent:
  assumes "distinct (utterances w)"
    and "utt \<in> set (utterances w)"
    and "\<forall>ob \<in> set (objects w). \<not> meaning ob utt"
  shows "(\<forall>i < length (utterances w). utterances w ! i = utt \<longrightarrow>
            np_sum (all_counts w ! i) = Fin 0) \<and>
         fl_div (Fin 0) (Fin 0) = NaN \<and>
         (\<exists>df probs. literal_listener w utt = Inr (df, probs) \<and>
            vals probs = replicate (length (objects w)) NaN)"
proof -
  have c: "counts_row w utt = map Fin (replicate (length (objects w)) 0)"
    using assms(3) by (rule counts_row_no_referent)
  have s: "np_sum (counts_row w utt) = Fin 0"
    unfolding c by (rule np_sum_zeros)
  have "l0_row w utt = replicate (length (objects w)) NaN"
    unfolding l0_row_def normalize_row_def s
    by (simp add: c map_replicate_const)
  with assms(2) s show ?thesis
    by (auto simp: literal_listener_eq all_counts_map)
qed

theorem literal_listener_no_referent_witness:
  "distinct (utterances world_red) \<and> ''red'' \<in> set (utterances world_red) \<and>
   list_all (\<lambda>ob. \<not> meaning ob ''red'') (objects world_red) \<and>
   np_sum (all_counts world_red ! 4) = Fin 0 \<and>
   (\<exists>df probs. literal_listener world_red ''red'' = Inr (df, probs) \<and>
      vals probs = [NaN, NaN, NaN])"
  using literal_listener_no_referent [of world_red "''red''"]
  by (simp add: distinct_labels_def world_red_def canonical_def meaning_def)

section \<open>The pragmatic listener hearing "blue"\<close>

text \<open>
  Claim C4. \<^verbatim>\<open>pragmatic_listener("blue")\<close> returns a distribution over blue square,
  blue circle and green square in which blue square's probability is strictly greater
  than blue circle's, which is strictly greater than green square's. The values are
  those of the first notebook (about 0.6, 0.4 and 1.2e-7) and of \<^verbatim>\<open>intro-to-rsa.ipynb\<close>
  (0.6, 0.4 and 0).
\<close>

theorem pragmatic_listener_blue:
  "(\<exists>df. pragmatic_listener canonical ''blue'' =
      Inr (df, \<lparr>vals = [Fin (468750095937500627500001 / 781250285937501882500003),
                        Fin (312500095625000627500001 / 781250285937501882500003),
                        Fin (94375000627500001 / 781250285937501882500003)],
                labels = [''blue square'', ''blue circle'', ''green square''],
                name = ''blue''\<rparr>)) \<and>
   fl_less (Fin (312500095625000627500001 / 781250285937501882500003))
           (Fin (468750095937500627500001 / 781250285937501882500003)) \<and>
   fl_less (Fin (94375000627500001 / 781250285937501882500003))
           (Fin (312500095625000627500001 / 781250285937501882500003)) \<and>
   (\<exists>df. pragmatic_listener_intro canonical ''blue'' =
      Inr (df, \<lparr>vals = [Fin (3 / 5), Fin (2 / 5), Fin 0],
                labels = [''blue square'', ''blue circle'', ''green square''],
                name = ''blue''\<rparr>)) \<and>
   fl_less (Fin (2 / 5)) (Fin (3 / 5)) \<and> fl_less (Fin 0) (Fin (2 / 5))"
  by (simp add: stage_eval)

section \<open>The pragmatic speaker for the blue square\<close>

text \<open>
  In the first notebook \<^verbatim>\<open>pragmatic_speaker\<close> for the blue square with \<^verbatim>\<open>alpha = 1\<close>
  returns about 0.5 for \<^verbatim>\<open>"blue"\<close> and \<^verbatim>\<open>"square"\<close>, and for \<^verbatim>\<open>"green"\<close> and
  \<^verbatim>\<open>"circle"\<close> the normalized residual \<open>epsilon / (1 + 4 * epsilon)\<close> of the constant,
  which is not zero.
\<close>

lemma pragmatic_speaker_blue_square:
  "pragmatic_speaker canonical blue_square 1 =
     Inr (\<lparr>data = [[Fin (500000001 / 1000000004), Fin (1 / 1000000004),
                    Fin (500000001 / 1000000004), Fin (1 / 1000000004)],
                   [Fin (500000001 / 1500000004), Fin (1 / 1500000004),
                    Fin (1 / 1500000004), Fin (1000000001 / 1500000004)],
                   [Fin (1 / 1500000004), Fin (1000000001 / 1500000004),
                    Fin (500000001 / 1500000004), Fin (1 / 1500000004)]],
            index = [''blue square'', ''blue circle'', ''green square''],
            columns = [''blue'', ''green'', ''square'', ''circle'']\<rparr>,
          \<lparr>vals = [Fin (500000001 / 1000000004), Fin (1 / 1000000004),
                    Fin (500000001 / 1000000004), Fin (1 / 1000000004)],
            labels = [''blue'', ''green'', ''square'', ''circle''],
            name = ''blue square''\<rparr>)"
  by (simp add: stage_eval blue_square_def)

lemma speaker_residual:
  "epsilon_speaker / (1 + 4 * epsilon_speaker) = 1 / 1000000004"
  "(1 / 2 + epsilon_speaker) / (1 + 4 * epsilon_speaker) = 500000001 / 1000000004"
  "\<bar>500000001 / 1000000004 - 1 / 2\<bar> < (1 / 10 ^ 8 :: real)"
  "(0::real) < 1 / 1000000004" "(1 / 1000000004 :: real) < 1 / 10 ^ 9"
  by (simp_all add: epsilon_speaker_def)

text \<open>
  Claim C3 says that \<^verbatim>\<open>pragmatic_speaker\<close> for the blue square with \<^verbatim>\<open>alpha = 1\<close>
  yields about 0.5, ~0, 0.5, ~0 where the entries ~0 are the normalized residual of the
  stabilization constant and not exactly zero. In \<^verbatim>\<open>intro-to-rsa.ipynb\<close>, which has no
  constant, the entries for \<^verbatim>\<open>"green"\<close> and \<^verbatim>\<open>"circle"\<close> are exactly zero.
\<close>

theorem pragmatic_speaker_intro_blue_square:
  "pragmatic_speaker_intro canonical blue_square 1 =
     Inr (\<lparr>data = [[Fin (1 / 2), Fin 0, Fin (1 / 2), Fin 0],
                   [Fin (1 / 3), Fin 0, Fin 0, Fin (2 / 3)],
                   [Fin 0, Fin (2 / 3), Fin (1 / 3), Fin 0]],
            index = [''blue square'', ''blue circle'', ''green square''],
            columns = [''blue'', ''green'', ''square'', ''circle'']\<rparr>,
          \<lparr>vals = [Fin (1 / 2), Fin 0, Fin (1 / 2), Fin 0],
            labels = [''blue'', ''green'', ''square'', ''circle''],
            name = ''blue square''\<rparr>)"
  by (simp add: stage_eval blue_square_def)

section \<open>Shares of weights with underflow\<close>

lemma powr_le_cancel:
  fixes x y :: real
  assumes "0 < a" and "0 \<le> x" and "0 \<le> y" and "x powr a \<le> y powr a"
  shows "x \<le> y"
proof (rule ccontr)
  assume "\<not> x \<le> y"
  then have "y < x" by simp
  with assms(1,3) have "y powr a < x powr a" by (simp add: powr_less_mono2)
  with assms(4) show False by simp
qed

lemma powr_cross:
  fixes q m :: real
  assumes "0 \<le> q" and "q \<le> m" and "a1 \<le> a2"
  shows "q powr a2 * m powr a1 \<le> q powr a1 * m powr a2"
proof (cases "q = 0")
  case True
  then show ?thesis by simp
next
  case False
  with assms have q: "0 < q" and m: "0 < m" by simp_all
  have d: "q powr (a2 - a1) \<le> m powr (a2 - a1)"
    using assms by (intro powr_mono2) simp_all
  have "q powr a2 * m powr a1 = q powr a1 * m powr a1 * q powr (a2 - a1)"
    using q by (simp add: powr_diff)
  also have "\<dots> \<le> q powr a1 * m powr a1 * m powr (a2 - a1)"
    using d by (intro mult_left_mono) simp_all
  also have "\<dots> = q powr a1 * m powr a2"
    using m by (simp add: powr_diff)
  finally show ?thesis .
qed

lemma sat_powr_cross:
  fixes q m :: real
  assumes q: "0 \<le> q" and qm: "q \<le> m" and a1: "0 < a1" and a12: "a1 \<le> a2"
  shows "sat (q powr a2) * m powr a1 \<le> sat (q powr a1) * m powr a2"
proof (cases "q powr a2 \<le> float_min")
  case True
  then have "sat (q powr a2) = 0" by (simp add: sat_def)
  moreover have "0 \<le> sat (q powr a1) * m powr a2"
    by (intro mult_nonneg_nonneg sat_nonneg) simp_all
  ultimately show ?thesis by simp
next
  case False
  then have big2: "float_min < q powr a2" by simp
  have big1: "float_min < q powr a1"
  proof (cases "q \<le> 1")
    case True
    with q a12 have "q powr a2 \<le> q powr a1" by (intro powr_mono') simp_all
    with big2 show ?thesis by linarith
  next
    case False
    with a1 have "1 \<le> q powr a1" by (intro ge_one_powr_ge_zero) simp_all
    with one_in_range(1) show ?thesis by linarith
  qed
  from big1 big2 have "sat (q powr a1) = q powr a1" "sat (q powr a2) = q powr a2"
    by (simp_all add: sat_id)
  with powr_cross [OF q qm a12] show ?thesis by simp
qed

lemma divide_le_cross:
  fixes S1 S2 :: real
  assumes "0 < S1" "0 < S2" "x * S2 \<le> y * S1" shows "x / S1 \<le> y / S2"
  using assms by (simp add: field_simps)

lemma sum_list_mult_right:
  fixes f :: "real \<Rightarrow> real"
  shows "sum_list (map f qs) * c = sum_list (map (\<lambda>q. f q * c) qs)"
  by (simp add: sum_list_mult_const)

lemma sum_list_le_length:
  fixes f :: "real \<Rightarrow> real"
  assumes "\<forall>q \<in> set qs. f q \<le> b"
  shows "sum_list (map f qs) \<le> real (length qs) * b"
  using assms by (induction qs) (simp_all add: algebra_simps)

lemma length_sat_shares [simp]: "length (sat_shares a qs) = length qs"
  by (simp add: sat_shares_def sat_weights_def)

lemma sat_shares_nth:
  "k < length qs \<Longrightarrow>
   sat_shares a qs ! k = sat (sat (qs ! k powr a) / sum_list (sat_weights a qs))"
  by (simp add: sat_shares_def sat_weights_def)

text \<open>
  The facts about one value of \<open>a\<close>: the largest number \<open>m\<close> of the list has a weight
  inside the range, so its share is exact and no share is larger.
\<close>

lemma sat_shares_max:
  fixes qs :: "real list"
  assumes nn: "\<forall>q \<in> set qs. 0 \<le> q"
    and m: "m \<in> set qs" and mx: "\<forall>q \<in> set qs. q \<le> m"
    and a: "0 < a" and lo: "float_min < m powr a"
    and n: "real (length qs) * float_min < 1"
  shows "0 < sum_list (sat_weights a qs)"
    and "sat (sat (m powr a) / sum_list (sat_weights a qs)) =
           m powr a / sum_list (sat_weights a qs)"
    and "\<forall>q \<in> set qs. sat (sat (q powr a) / sum_list (sat_weights a qs)) \<le>
           m powr a / sum_list (sat_weights a qs)"
    and "\<forall>q \<in> set qs. q < m \<longrightarrow>
           sat (sat (q powr a) / sum_list (sat_weights a qs)) <
           m powr a / sum_list (sat_weights a qs)"
proof -
  let ?S = "sum_list (sat_weights a qs)"
  have wm: "sat (m powr a) = m powr a" using lo by (rule sat_id)
  have wle: "sat (q powr a) \<le> m powr a" if "q \<in> set qs" for q
  proof -
    from that nn mx a have "q powr a \<le> m powr a" by (intro powr_mono2) simp_all
    moreover have "sat (q powr a) \<le> q powr a" by (intro sat_le) simp
    ultimately show ?thesis by linarith
  qed
  have wnn: "\<forall>w \<in> set (sat_weights a qs). 0 \<le> w"
    by (auto simp: sat_weights_def intro: sat_nonneg)
  from m have "m powr a \<in> set (sat_weights a qs)"
    unfolding sat_weights_def using wm by force
  then have "m powr a \<le> ?S"
    using wnn by (intro member_le_sum_list) auto
  moreover from lo float_min_pos have mpos: "0 < m powr a" by linarith
  ultimately show S: "0 < ?S" by linarith
  from m have len: "0 < real (length qs)" by (cases qs) simp_all
  have "?S \<le> real (length qs) * m powr a"
    unfolding sat_weights_def using wle by (intro sum_list_le_length) blast
  then have "1 / real (length qs) \<le> m powr a / ?S"
    using S len by (simp add: field_simps)
  moreover from n len have "float_min < 1 / real (length qs)"
    by (simp add: field_simps)
  ultimately have "float_min < m powr a / ?S" by linarith
  then show "sat (sat (m powr a) / ?S) = m powr a / ?S"
    unfolding wm by (rule sat_id)
  show "\<forall>q \<in> set qs. sat (sat (q powr a) / ?S) \<le> m powr a / ?S"
  proof
    fix q assume q: "q \<in> set qs"
    have "sat (sat (q powr a) / ?S) \<le> sat (q powr a) / ?S"
      using S by (intro sat_le divide_nonneg_nonneg sat_nonneg) simp_all
    also have "\<dots> \<le> m powr a / ?S"
      using wle [OF q] S by (intro divide_right_mono) simp_all
    finally show "sat (sat (q powr a) / ?S) \<le> m powr a / ?S" .
  qed
  show "\<forall>q \<in> set qs. q < m \<longrightarrow> sat (sat (q powr a) / ?S) < m powr a / ?S"
  proof (intro ballI impI)
    fix q assume q: "q \<in> set qs" and less: "q < m"
    from q nn have q0: "0 \<le> q" by blast
    have "sat (q powr a) \<le> q powr a" by (intro sat_le) simp
    also from a q0 less have "q powr a < m powr a" by (intro powr_less_mono2)
    finally have "sat (q powr a) / ?S < m powr a / ?S"
      using S by (simp add: divide_strict_right_mono)
    moreover have "sat (sat (q powr a) / ?S) \<le> sat (q powr a) / ?S"
      using S by (intro sat_le divide_nonneg_nonneg sat_nonneg) simp_all
    ultimately show "sat (sat (q powr a) / ?S) < m powr a / ?S" by linarith
  qed
qed

lemma sat_shares_mono:
  fixes qs :: "real list"
  assumes nn: "\<forall>q \<in> set qs. 0 \<le> q"
    and m: "m \<in> set qs" and mx: "\<forall>q \<in> set qs. q \<le> m"
    and a1: "0 < a1" and a12: "a1 \<le> a2"
    and lo1: "float_min < m powr a1" and lo2: "float_min < m powr a2"
    and n: "real (length qs) * float_min < 1"
    and k: "k < length qs"
    and kmax: "\<forall>j < length qs. sat_shares a1 qs ! j \<le> sat_shares a1 qs ! k"
  shows "(\<forall>j < length qs. sat_shares a2 qs ! j \<le> sat_shares a2 qs ! k) \<and>
         sat_shares a1 qs ! k \<le> sat_shares a2 qs ! k"
proof -
  let ?S = "\<lambda>a. sum_list (sat_weights a qs)"
  from a1 a12 have a2: "0 < a2" by simp
  note f1 = sat_shares_max [OF nn m mx a1 lo1 n]
  note f2 = sat_shares_max [OF nn m mx a2 lo2 n]
  from m obtain i where i: "i < length qs" "qs ! i = m"
    by (auto simp: in_set_conv_nth)
  have qk: "qs ! k = m"
  proof (rule ccontr)
    assume "qs ! k \<noteq> m"
    moreover from k mx have "qs ! k \<le> m" by simp
    ultimately have "qs ! k < m" by simp
    with f1(4) k have "sat_shares a1 qs ! k < m powr a1 / ?S a1"
      by (simp add: sat_shares_nth)
    also have "\<dots> = sat_shares a1 qs ! i"
      using i f1(2) by (simp add: sat_shares_nth)
    finally show False using kmax i(1) by (simp add: not_less [symmetric])
  qed
  have e1: "sat_shares a1 qs ! k = m powr a1 / ?S a1"
    using k qk f1(2) by (simp add: sat_shares_nth)
  have e2: "sat_shares a2 qs ! k = m powr a2 / ?S a2"
    using k qk f2(2) by (simp add: sat_shares_nth)
  have A: "\<forall>j < length qs. sat_shares a2 qs ! j \<le> sat_shares a2 qs ! k"
    unfolding e2 using f2(3) by (simp add: sat_shares_nth)
  have "?S a2 * m powr a1 = sum_list (map (\<lambda>q. sat (q powr a2) * m powr a1) qs)"
    unfolding sat_weights_def by (simp add: sum_list_mult_const comp_def)
  also have "\<dots> \<le> sum_list (map (\<lambda>q. sat (q powr a1) * m powr a2) qs)"
  proof (rule sum_list_mono)
    fix q assume q: "q \<in> set qs"
    with nn have "0 \<le> q" by blast
    moreover from q mx have "q \<le> m" by blast
    ultimately show "sat (q powr a2) * m powr a1 \<le> sat (q powr a1) * m powr a2"
      using a1 a12 by (rule sat_powr_cross)
  qed
  also have "\<dots> = ?S a1 * m powr a2"
    unfolding sat_weights_def by (simp add: sum_list_mult_const comp_def)
  finally have "m powr a1 * ?S a2 \<le> m powr a2 * ?S a1"
    by (simp only: mult.commute)
  with f1(1) f2(1) have "m powr a1 / ?S a1 \<le> m powr a2 / ?S a2"
    by (rule divide_le_cross)
  with A show ?thesis unfolding e1 e2 by simp
qed

section \<open>Weights of the pragmatic speaker\<close>

lemma powr_unit_le_3:
  fixes q :: real
  assumes q: "0 \<le> q" and q1: "q \<le> 1 + 1 / 10 ^ 9" and a0: "0 \<le> a" and a1: "a \<le> 10 ^ 9"
  shows "q powr a \<le> 3"
proof -
  let ?c = "1 + 1 / 10 ^ 9 :: real"
  have "q powr a \<le> ?c powr a" using q q1 a0 by (intro powr_mono2) simp_all
  also have "\<dots> = exp (a * ln ?c)" by (simp add: powr_def)
  also have "\<dots> \<le> exp 1"
  proof -
    have "ln ?c \<le> 1 / 10 ^ 9" using ln_add_one_self_le_self [of "1 / 10 ^ 9 :: real"] by simp
    then have "a * ln ?c \<le> a * (1 / 10 ^ 9)" using a0 by (intro mult_left_mono) simp_all
    also have "\<dots> \<le> 1" using a1 by simp
    finally show ?thesis by simp
  qed
  also have "\<dots> \<le> 3" by (rule exp_le)
  finally show ?thesis .
qed

lemma three_less_float_max: "3 < float_max"
  using float_max_large by simp

lemma powr_half_in_range:
  fixes m :: real
  assumes m: "1 / 2 \<le> m" and a0: "0 \<le> a" and a1: "a \<le> 1074"
  shows "float_min < m powr a"
proof -
  have "float_min < (1 / 2 :: real) powr 1074"
    by (simp add: float_min_def powr_numeral power_divide)
  also have "\<dots> \<le> (1 / 2) powr a" using a1 by (intro powr_mono') simp_all
  also have "\<dots> \<le> m powr a" using m a0 by (intro powr_mono2) simp_all
  finally show ?thesis .
qed

lemma weight_sat:
  assumes p: "0 \<le> p" "p \<le> 1"
    and d: "1 / 10 ^ 30 \<le> \<bar>p + epsilon_speaker - 1\<bar>"
    and a: "1 \<le> alpha" "alpha \<le> 10 ^ 9"
  shows "weight alpha (Fin p) = Fin (sat ((p + epsilon_speaker) powr alpha))"
proof -
  let ?c = "p + epsilon_speaker"
  have c: "0 < ?c" "1 / 10 ^ 30 \<le> ?c" "?c \<le> 10 ^ 30" "?c \<le> 1 + 1 / 10 ^ 9"
    using p by (simp_all add: epsilon_speaker_def add_nonneg_pos)
  have 1: "fl_add (Fin p) (Fin epsilon_speaker) = Fin ?c"
    using c by (simp add: fl_rnd_eval)
  have 2: "fl_log (Fin ?c) = Fin (ln ?c)"
    using c(1) fl_rnd_ln [OF c(1) d c(2,3)] by simp
  have 3: "fl_mul (Fin alpha) (Fin (ln ?c)) = Fin (alpha * ln ?c)"
    using fl_rnd_mul_ln [OF _ _ c(1) d c(2,3), of alpha] a by simp
  have "?c powr alpha \<le> 3" using c(1,4) a by (intro powr_unit_le_3) simp_all
  with three_less_float_max have "?c powr alpha < float_max" by linarith
  then have 4: "fl_exp (Fin (alpha * ln ?c)) = Fin (sat (?c powr alpha))"
    using c(1) by (simp add: powr_def fl_rnd_sat)
  show ?thesis
    unfolding weight_def 1 2 3 4 ..
qed

lemma weight_intro_sat:
  assumes p: "p = 0 \<or> p = 1 / 2 \<or> p = 1" and a: "1 \<le> alpha" "alpha \<le> 10 ^ 9"
  shows "weight_intro alpha (Fin p) = Fin (sat (p powr alpha))"
proof -
  consider "p = 0" | "p = 1 / 2" | "p = 1" using p by blast
  then show ?thesis
  proof cases
    case 1
    with a show ?thesis by (simp add: weight_intro_def sat_def float_min_pos less_imp_le)
  next
    case 2
    have 2: "fl_log (Fin (1 / 2)) = Fin (ln (1 / 2))"
      using fl_rnd_ln [of "1 / 2"] by simp
    have 3: "fl_mul (Fin alpha) (Fin (ln (1 / 2))) = Fin (alpha * ln (1 / 2))"
      using fl_rnd_mul_ln [of alpha "1 / 2"] a by simp
    have "(1 / 2) powr alpha \<le> 3" using a by (intro powr_unit_le_3) simp_all
    with three_less_float_max have "(1 / 2) powr alpha < float_max" by linarith
    then have 4: "fl_exp (Fin (alpha * ln (1 / 2))) = Fin (sat ((1 / 2) powr alpha))"
      by (simp add: powr_def fl_rnd_sat)
    show ?thesis unfolding weight_intro_def \<open>p = 1 / 2\<close> 2 3 4 ..
  next
    case 3
    with one_in_range show ?thesis
      by (simp add: weight_intro_def sat_def fl_rnd_eval)
  qed
qed

section \<open>Rows of weights at the scale of one\<close>

lemma normalize_sat_weights:
  fixes qs :: "real list"
  assumes q: "\<forall>q \<in> set qs. 0 \<le> q \<and> q \<le> 1 + 1 / 10 ^ 9"
    and m: "m \<in> set qs" "1 / 2 \<le> m" "\<forall>q \<in> set qs. q \<le> m"
    and a: "1 \<le> a" "a \<le> 1074"
    and n: "length qs \<le> 1000"
  shows "normalize_row (map Fin (sat_weights a qs)) = map Fin (sat_shares a qs)"
proof -
  have nn: "\<forall>q \<in> set qs. 0 \<le> q" using q by blast
  have lo: "float_min < m powr a" using m(2) a by (intro powr_half_in_range) simp_all
  have nf: "real (length qs) * float_min < 1"
  proof -
    have "real (length qs) * float_min \<le> 1000 * float_min"
      using n float_min_pos by (intro mult_right_mono) simp_all
    also have "\<dots> < 1" by (simp add: float_min_def)
    finally show ?thesis .
  qed
  from a have a0: "0 < a" by simp
  note f = sat_shares_max [OF nn m(1,3) a0 lo nf]
  have w3: "sat (q powr a) \<le> 3" if "q \<in> set qs" for q
  proof -
    have "sat (q powr a) \<le> q powr a" by (intro sat_le) simp
    also have "\<dots> \<le> 3" using q that a by (intro powr_unit_le_3) simp_all
    finally show ?thesis .
  qed
  have ok: "\<forall>w \<in> set (sat_weights a qs). ok_real w"
  proof
    fix w assume "w \<in> set (sat_weights a qs)"
    then obtain q' where q': "q' \<in> set qs" "w = sat (q' powr a)"
      by (auto simp: sat_weights_def)
    have "q' powr a \<le> 3" using q q'(1) a by (intro powr_unit_le_3) simp_all
    with three_less_float_max have "q' powr a < float_max" by linarith
    with q'(2) show "ok_real w" by (simp add: ok_real_sat)
  qed
  have "sum_list (sat_weights a qs) \<le> real (length qs) * 3"
    unfolding sat_weights_def using w3 by (intro sum_list_le_length) blast
  also have "\<dots> \<le> 1000 * 3" using n by simp
  also have "\<dots> < float_max" using float_max_large by simp
  finally have fin: "sum_list (sat_weights a qs) < float_max" .
  show ?thesis
    unfolding normalize_row_ok [OF ok f(1) fin] sat_shares_def ..
qed

lemma sat_shares_unit_mono:
  fixes qs :: "real list"
  assumes q: "\<forall>q \<in> set qs. 0 \<le> q \<and> q \<le> 1 + 1 / 10 ^ 9"
    and m: "m \<in> set qs" "1 / 2 \<le> m" "\<forall>q \<in> set qs. q \<le> m"
    and a: "1 \<le> a1" "a1 \<le> a2" "a2 \<le> 1074"
    and n: "length qs \<le> 1000"
  shows "max_mass_nondecreasing (1 / 10 ^ 9) (sat_shares a1 qs) (sat_shares a2 qs)"
proof -
  have nn: "\<forall>q \<in> set qs. 0 \<le> q" using q by blast
  have lo1: "float_min < m powr a1" using m(2) a by (intro powr_half_in_range) simp_all
  have lo2: "float_min < m powr a2" using m(2) a by (intro powr_half_in_range) simp_all
  have nf: "real (length qs) * float_min < 1"
  proof -
    have "real (length qs) * float_min \<le> 1000 * float_min"
      using n float_min_pos by (intro mult_right_mono) simp_all
    also have "\<dots> < 1" by (simp add: float_min_def)
    finally show ?thesis .
  qed
  from a have a1: "0 < a1" by simp
  have "(\<forall>j < length qs. sat_shares a2 qs ! j \<le> sat_shares a2 qs ! k) \<and>
        sat_shares a1 qs ! k \<le> sat_shares a2 qs ! k + 1 / 10 ^ 9"
    if "k < length qs" "\<forall>j < length qs. sat_shares a1 qs ! j \<le> sat_shares a1 qs ! k" for k
    using sat_shares_mono [OF nn m(1,3) a1 a(2) lo1 lo2 nf that] by simp
  then show ?thesis
    by (simp add: max_mass_nondecreasing_def)
qed

section \<open>The pragmatic speaker in the canonical world\<close>

lemma objects_canonical: "objects canonical = [blue_square, blue_circle, green_square]"
  by (simp add: canonical_def blue_square_def blue_circle_def green_square_def)

lemma utterances_canonical: "utterances canonical = [''blue'', ''green'', ''square'', ''circle'']"
  by (simp add: canonical_def)

lemma distinct_labels_canonical: "distinct_labels canonical"
  by (simp add: distinct_labels_def canonical_def)

lemmas cell_eval =
  l0_cell_def counts_row_def np_sum_def meaning_def objects_canonical
  blue_square_def blue_circle_def green_square_def fl_eval

lemma l0_cells_blue_square:
  "map (l0_cell canonical blue_square) (utterances canonical) =
     [Fin (1 / 2), Fin 0, Fin (1 / 2), Fin 0]"
  by (simp add: utterances_canonical cell_eval)

lemma l0_cells_blue_circle:
  "map (l0_cell canonical blue_circle) (utterances canonical) =
     [Fin (1 / 2), Fin 0, Fin 0, Fin 1]"
  by (simp add: utterances_canonical cell_eval)

lemma l0_cells_green_square:
  "map (l0_cell canonical green_square) (utterances canonical) =
     [Fin 0, Fin 1, Fin (1 / 2), Fin 0]"
  by (simp add: utterances_canonical cell_eval)

lemma s1_pre_cells: "s1_pre g w ob = map g (map (l0_cell w ob) (utterances w))"
  by (simp add: s1_pre_def)

lemma canonical_objects_differ:
  "blue_circle \<noteq> blue_square" "green_square \<noteq> blue_square" "green_square \<noteq> blue_circle"
  by (simp_all add: blue_square_def blue_circle_def green_square_def)

lemma canonical_object_cases:
  assumes "ob \<in> set (objects canonical)"
  obtains "ob = blue_square" | "ob = blue_circle" | "ob = green_square"
  using assms unfolding objects_canonical by auto

lemma l0_cells_canonical:
  assumes "ob \<in> set (objects canonical)"
  shows "map (l0_cell canonical ob) (utterances canonical) = map Fin (l0_probs ob)"
  using assms
proof (cases rule: canonical_object_cases)
  case 1
  then show ?thesis by (simp add: l0_cells_blue_square l0_probs_def)
next
  case 2
  then show ?thesis by (simp add: l0_cells_blue_circle l0_probs_def canonical_objects_differ)
next
  case 3
  then show ?thesis by (simp add: l0_cells_green_square l0_probs_def canonical_objects_differ)
qed

lemma l0_probs_values: "\<forall>p \<in> set (l0_probs ob). p = 0 \<or> p = 1 / 2 \<or> p = 1"
  by (simp add: l0_probs_def)

lemma l0_probs_max:
  "\<exists>m \<in> set (l0_probs ob). 1 / 2 \<le> m \<and> (\<forall>p \<in> set (l0_probs ob). p \<le> m)"
  by (simp add: l0_probs_def)

lemma length_l0_probs: "length (l0_probs ob) = 4"
  by (simp add: l0_probs_def)

text \<open>The numbers whose powers are the weights: \<open>p + epsilon\<close> in the first notebook.\<close>

lemma eps_probs_unit:
  "\<forall>q \<in> set (map (\<lambda>p. p + epsilon_speaker) (l0_probs ob)). 0 \<le> q \<and> q \<le> 1 + 1 / 10 ^ 9"
  using l0_probs_values [of ob] by (auto simp: epsilon_speaker_def)

lemma eps_probs_max:
  "\<exists>m \<in> set (map (\<lambda>p. p + epsilon_speaker) (l0_probs ob)).
     1 / 2 \<le> m \<and> (\<forall>q \<in> set (map (\<lambda>p. p + epsilon_speaker) (l0_probs ob)). q \<le> m)"
proof -
  from l0_probs_max [of ob] obtain m where m: "m \<in> set (l0_probs ob)" "1 / 2 \<le> m"
    "\<forall>p \<in> set (l0_probs ob). p \<le> m" by blast
  have "m + epsilon_speaker \<in> set (map (\<lambda>p. p + epsilon_speaker) (l0_probs ob))"
    using m(1) by simp
  moreover have "1 / 2 \<le> m + epsilon_speaker"
    using m(2) by (simp add: epsilon_speaker_def)
  moreover have "\<forall>q \<in> set (map (\<lambda>p. p + epsilon_speaker) (l0_probs ob)). q \<le> m + epsilon_speaker"
    using m(3) by auto
  ultimately show ?thesis by blast
qed

lemma probs_unit: "\<forall>q \<in> set (l0_probs ob). 0 \<le> q \<and> q \<le> 1 + 1 / 10 ^ 9"
  using l0_probs_values [of ob] by auto

lemma s1_pre_canonical:
  assumes "ob \<in> set (objects canonical)" and "1 \<le> alpha" and "alpha \<le> 10 ^ 9"
  shows "s1_pre (weight alpha) canonical ob =
           map Fin (sat_weights alpha (map (\<lambda>p. p + epsilon_speaker) (l0_probs ob)))"
proof -
  have "weight alpha (Fin p) = Fin (sat ((p + epsilon_speaker) powr alpha))"
    if "p \<in> set (l0_probs ob)" for p
  proof -
    from that l0_probs_values have "p = 0 \<or> p = 1 / 2 \<or> p = 1" by blast
    then have "0 \<le> p" "p \<le> 1" "1 / 10 ^ 30 \<le> \<bar>p + epsilon_speaker - 1\<bar>"
      by (auto simp: epsilon_speaker_def)
    then show ?thesis using assms(2,3) by (rule weight_sat)
  qed
  then have "map (weight alpha) (map Fin (l0_probs ob)) =
      map Fin (sat_weights alpha (map (\<lambda>p. p + epsilon_speaker) (l0_probs ob)))"
    by (simp add: sat_weights_def)
  then show ?thesis
    by (simp only: s1_pre_cells l0_cells_canonical [OF assms(1)])
qed

lemma s1_pre_intro_canonical:
  assumes "ob \<in> set (objects canonical)" and "1 \<le> alpha" and "alpha \<le> 10 ^ 9"
  shows "s1_pre (weight_intro alpha) canonical ob = map Fin (sat_weights alpha (l0_probs ob))"
proof -
  have "weight_intro alpha (Fin p) = Fin (sat (p powr alpha))"
    if "p \<in> set (l0_probs ob)" for p
    using that l0_probs_values assms(2,3) by (intro weight_intro_sat) blast+
  then have "map (weight_intro alpha) (map Fin (l0_probs ob)) =
      map Fin (sat_weights alpha (l0_probs ob))"
    by (simp add: sat_weights_def)
  then show ?thesis
    by (simp only: s1_pre_cells l0_cells_canonical [OF assms(1)])
qed

lemma s1_row_canonical:
  assumes "ob \<in> set (objects canonical)" and "1 \<le> alpha" and "alpha \<le> 1074"
  shows "s1_row (weight alpha) canonical ob =
           map Fin (sat_shares alpha (map (\<lambda>p. p + epsilon_speaker) (l0_probs ob)))"
proof -
  from eps_probs_max [of ob] obtain m
    where m: "m \<in> set (map (\<lambda>p. p + epsilon_speaker) (l0_probs ob))" "1 / 2 \<le> m"
      "\<forall>q \<in> set (map (\<lambda>p. p + epsilon_speaker) (l0_probs ob)). q \<le> m" by blast
  have n: "length (map (\<lambda>p. p + epsilon_speaker) (l0_probs ob)) \<le> 1000"
    by (simp add: length_l0_probs)
  from assms(3) have a9: "alpha \<le> 10 ^ 9" by simp
  show ?thesis
    unfolding s1_row_def s1_pre_canonical [OF assms(1,2) a9]
    by (rule normalize_sat_weights [OF eps_probs_unit m assms(2,3) n])
qed

lemma s1_row_intro_canonical:
  assumes "ob \<in> set (objects canonical)" and "1 \<le> alpha" and "alpha \<le> 1074"
  shows "s1_row (weight_intro alpha) canonical ob = map Fin (sat_shares alpha (l0_probs ob))"
proof -
  from l0_probs_max [of ob] obtain m
    where m: "m \<in> set (l0_probs ob)" "1 / 2 \<le> m" "\<forall>q \<in> set (l0_probs ob). q \<le> m" by blast
  have n: "length (l0_probs ob) \<le> 1000" by (simp add: length_l0_probs)
  from assms(3) have a9: "alpha \<le> 10 ^ 9" by simp
  show ?thesis
    unfolding s1_row_def s1_pre_intro_canonical [OF assms(1,2) a9]
    by (rule normalize_sat_weights [OF probs_unit m assms(2,3) n])
qed

lemma find_canonical:
  assumes "ob \<in> set (objects canonical)"
  shows "find (\<lambda>x. string x = string ob) (objects canonical) = Some ob"
  using distinct_labels_canonical assms by (simp add: distinct_labels_def find_label)

lemma pragmatic_speaker_canonical:
  assumes "ob \<in> set (objects canonical)" and "1 \<le> alpha" and "alpha \<le> 1074"
  shows "pragmatic_speaker canonical ob alpha =
           Inr (s1_df (weight alpha) canonical,
                \<lparr>vals = map Fin (sat_shares alpha (map (\<lambda>p. p + epsilon_speaker) (l0_probs ob))),
                  labels = utterances canonical, name = string ob\<rparr>)"
  by (simp add: pragmatic_speaker_eq utterances_canonical find_canonical [OF assms(1)]
      s1_row_canonical [OF assms])

lemma pragmatic_speaker_intro_canonical:
  assumes "ob \<in> set (objects canonical)" and "1 \<le> alpha" and "alpha \<le> 1074"
  shows "pragmatic_speaker_intro canonical ob alpha =
           Inr (s1_df (weight_intro alpha) canonical,
                \<lparr>vals = map Fin (sat_shares alpha (l0_probs ob)),
                  labels = utterances canonical, name = string ob\<rparr>)"
  by (simp add: pragmatic_speaker_intro_eq utterances_canonical find_canonical [OF assms(1)]
      s1_row_intro_canonical [OF assms])

section \<open>Sharpening with alpha\<close>

text \<open>
  Claim C6, as amended. For every object of the canonical world and
  \<open>1 \<le> a1 \<le> a2 \<le> 1074\<close>, \<^verbatim>\<open>pragmatic_speaker\<close> of either notebook returns at
  \<open>a1\<close> and at \<open>a2\<close> rows of finite numbers such that every utterance of maximal
  probability at \<open>a1\<close> is of maximal probability at \<open>a2\<close>, and its probability at
  \<open>a2\<close> is not smaller than at \<open>a1\<close>, up to the tolerance \<open>1e-9\<close>. Up to
  \<open>alpha = 1074\<close> the largest weight of every row lies inside the range of float64.
  The numbers here are not rounded to 53 bits and satisfy the inequality with no
  tolerance (\<open>sat_shares_mono\<close>); the tolerance is stated for the rounded numbers of
  the code, which differ from them by far less than that.
\<close>

theorem speaker_max_mass_monotone:
  assumes "ob \<in> set (objects canonical)" and "1 \<le> a1" and "a1 \<le> a2" and "a2 \<le> 1074"
  shows "(\<exists>df1 df2 r1 r2.
            pragmatic_speaker canonical ob a1 =
              Inr (df1, \<lparr>vals = map Fin r1, labels = utterances canonical, name = string ob\<rparr>) \<and>
            pragmatic_speaker canonical ob a2 =
              Inr (df2, \<lparr>vals = map Fin r2, labels = utterances canonical, name = string ob\<rparr>) \<and>
            max_mass_nondecreasing (1 / 10 ^ 9) r1 r2) \<and>
         (\<exists>df1 df2 r1 r2.
            pragmatic_speaker_intro canonical ob a1 =
              Inr (df1, \<lparr>vals = map Fin r1, labels = utterances canonical, name = string ob\<rparr>) \<and>
            pragmatic_speaker_intro canonical ob a2 =
              Inr (df2, \<lparr>vals = map Fin r2, labels = utterances canonical, name = string ob\<rparr>) \<and>
            max_mass_nondecreasing (1 / 10 ^ 9) r1 r2)"
proof -
  from assms have a1': "a1 \<le> 1074" and a2': "1 \<le> a2" by simp_all
  from eps_probs_max [of ob] obtain m
    where m: "m \<in> set (map (\<lambda>p. p + epsilon_speaker) (l0_probs ob))" "1 / 2 \<le> m"
      "\<forall>q \<in> set (map (\<lambda>p. p + epsilon_speaker) (l0_probs ob)). q \<le> m" by blast
  have n: "length (map (\<lambda>p. p + epsilon_speaker) (l0_probs ob)) \<le> 1000"
    by (simp add: length_l0_probs)
  have A: "max_mass_nondecreasing (1 / 10 ^ 9)
      (sat_shares a1 (map (\<lambda>p. p + epsilon_speaker) (l0_probs ob)))
      (sat_shares a2 (map (\<lambda>p. p + epsilon_speaker) (l0_probs ob)))"
    using eps_probs_unit m assms(2,3,4) n by (rule sat_shares_unit_mono)
  from l0_probs_max [of ob] obtain m'
    where m': "m' \<in> set (l0_probs ob)" "1 / 2 \<le> m'" "\<forall>q \<in> set (l0_probs ob). q \<le> m'" by blast
  have n': "length (l0_probs ob) \<le> 1000" by (simp add: length_l0_probs)
  have B: "max_mass_nondecreasing (1 / 10 ^ 9)
      (sat_shares a1 (l0_probs ob)) (sat_shares a2 (l0_probs ob))"
    using probs_unit m' assms(2,3,4) n' by (rule sat_shares_unit_mono)
  from A B show ?thesis
    using pragmatic_speaker_canonical [OF assms(1,2) a1']
      pragmatic_speaker_canonical [OF assms(1) a2' assms(4)]
      pragmatic_speaker_intro_canonical [OF assms(1,2) a1']
      pragmatic_speaker_intro_canonical [OF assms(1) a2' assms(4)]
    by blast
qed

theorem speaker_max_mass_monotone_witness:
  "blue_square \<in> set (objects canonical) \<and> (1::real) \<le> 1 \<and> (1::real) \<le> 2 \<and> (2::real) \<le> 1074 \<and>
   (\<exists>df1 df2 r1 r2.
      pragmatic_speaker canonical blue_square 1 =
        Inr (df1, \<lparr>vals = map Fin r1, labels = utterances canonical, name = ''blue square''\<rparr>) \<and>
      pragmatic_speaker canonical blue_square 2 =
        Inr (df2, \<lparr>vals = map Fin r2, labels = utterances canonical, name = ''blue square''\<rparr>) \<and>
      max_mass_nondecreasing (1 / 10 ^ 9) r1 r2)"
proof -
  have b: "blue_square \<in> set (objects canonical)"
    by (simp add: objects_canonical)
  have n: "string blue_square = ''blue square''"
    by (simp add: blue_square_def)
  from speaker_max_mass_monotone [OF b, of 1 2] b show ?thesis
    unfolding n by simp
qed

section \<open>Weights outside the range of float64\<close>

lemma weight_rnd:
  assumes p: "0 \<le> p" "p \<le> 1"
    and d: "1 / 10 ^ 30 \<le> \<bar>p + epsilon_speaker - 1\<bar>"
    and a: "1 \<le> \<bar>alpha\<bar>" "\<bar>alpha\<bar> \<le> 10 ^ 30"
  shows "weight alpha (Fin p) = fl_rnd ((p + epsilon_speaker) powr alpha)"
proof -
  let ?c = "p + epsilon_speaker"
  have c: "0 < ?c" "1 / 10 ^ 30 \<le> ?c" "?c \<le> 10 ^ 30"
    using p by (simp_all add: epsilon_speaker_def add_nonneg_pos)
  have 1: "fl_add (Fin p) (Fin epsilon_speaker) = Fin ?c"
    using c by (simp add: fl_rnd_eval)
  have 2: "fl_log (Fin ?c) = Fin (ln ?c)"
    using c(1) fl_rnd_ln [OF c(1) d c(2,3)] by simp
  have 3: "fl_mul (Fin alpha) (Fin (ln ?c)) = Fin (alpha * ln ?c)"
    using fl_rnd_mul_ln [OF a c(1) d c(2,3)] by simp
  have 4: "fl_exp (Fin (alpha * ln ?c)) = fl_rnd (?c powr alpha)"
    using c(1) by (simp add: powr_def)
  show ?thesis
    unfolding weight_def 1 2 3 4 ..
qed

lemma half_powr_1075: "(1 / 2 :: real) powr 1075 = float_min"
  by (simp add: float_min_def powr_numeral power_divide)

lemma powr_1076_underflow:
  fixes c :: real
  assumes "0 \<le> c" and "c \<le> 500000001 / 1000000000"
  shows "c powr 1076 \<le> float_min"
proof -
  let ?d = "500000001 / 1000000000 :: real"
  have "?d = (1 / 2) * (1 + 2 / 10 ^ 9)" by simp
  then have "ln ?d = ln ((1 / 2) * (1 + 2 / 10 ^ 9 :: real))" by simp
  also have "\<dots> = ln (1 / 2) + ln (1 + 2 / 10 ^ 9)"
    by (rule ln_mult_pos) simp_all
  also have "\<dots> \<le> ln (1 / 2) + 2 / 10 ^ 9"
    using ln_add_one_self_le_self [of "2 / 10 ^ 9 :: real"] by simp
  finally have l: "ln ?d \<le> ln (1 / 2) + 2 / 10 ^ 9" .
  have "1076 * ln ?d \<le> 1076 * (ln (1 / 2) + 2 / 10 ^ 9)"
    using l by simp
  also have "\<dots> = 1075 * ln (1 / 2) + (2152 / 10 ^ 9 - ln 2)"
    by (simp add: ln_div algebra_simps)
  also have "\<dots> \<le> 1075 * ln (1 / 2)"
    using ln_add1_ge [of "1::real"] by simp
  finally have e: "1076 * ln ?d \<le> 1075 * ln (1 / 2)" .
  have "c powr 1076 \<le> ?d powr 1076"
    using assms by (intro powr_mono2) simp_all
  also have "\<dots> = exp (1076 * ln ?d)" by (simp add: powr_def)
  also have "\<dots> \<le> exp (1075 * ln (1 / 2))" using e by simp
  also have "\<dots> = (1 / 2) powr 1075" by (simp add: powr_def)
  also have "\<dots> = float_min" by (rule half_powr_1075)
  finally show ?thesis .
qed

lemma weights_underflow:
  "sat ((500000001 / 1000000000) powr 1076) = 0"
  "sat ((1 / 1000000000) powr 1076) = 0"
  "sat ((1 / 2) powr 1075) = 0"
  "sat (0 powr 1075) = 0"
proof -
  show "sat ((500000001 / 1000000000) powr 1076) = 0"
    using powr_1076_underflow [of "500000001 / 1000000000"] by (simp add: sat_def)
  show "sat ((1 / 1000000000) powr 1076) = 0"
    using powr_1076_underflow [of "1 / 1000000000"] by (simp add: sat_def)
  show "sat ((1 / 2) powr 1075) = 0"
    by (simp only: half_powr_1075 sat_def order_refl if_True)
  show "sat (0 powr 1075) = 0"
    using float_min_pos by (simp add: sat_def)
qed

lemma zero_row_nan: "normalize_row [Fin 0, Fin 0, Fin 0, Fin 0] = [NaN, NaN, NaN, NaN]"
  by (simp add: normalize_row_def np_sum_def)

lemma blue_square_registered: "blue_square \<in> set (objects canonical)"
  by (simp add: objects_canonical)

lemma l0_probs_blue_square: "l0_probs blue_square = [1 / 2, 0, 1 / 2, 0]"
  by (simp add: l0_probs_def)

lemma eps_probs_blue_square:
  "map (\<lambda>p. p + epsilon_speaker) (l0_probs blue_square) =
     [500000001 / 1000000000, 1 / 1000000000, 500000001 / 1000000000, 1 / 1000000000]"
  by (simp add: l0_probs_blue_square epsilon_speaker_def)

lemma s1_pre_blue_square_underflow:
  "s1_pre (weight 1076) canonical blue_square = [Fin 0, Fin 0, Fin 0, Fin 0]"
  "s1_pre (weight_intro 1075) canonical blue_square = [Fin 0, Fin 0, Fin 0, Fin 0]"
proof -
  have a: "(1::real) \<le> 1076" "(1076::real) \<le> 10 ^ 9" "(1::real) \<le> 1075" "(1075::real) \<le> 10 ^ 9"
    by simp_all
  show "s1_pre (weight 1076) canonical blue_square = [Fin 0, Fin 0, Fin 0, Fin 0]"
    by (simp only: s1_pre_canonical [OF blue_square_registered a(1,2)] eps_probs_blue_square
        sat_weights_def list.map weights_underflow)
  show "s1_pre (weight_intro 1075) canonical blue_square = [Fin 0, Fin 0, Fin 0, Fin 0]"
    by (simp only: s1_pre_intro_canonical [OF blue_square_registered a(3,4)]
        l0_probs_blue_square sat_weights_def list.map weights_underflow)
qed

lemma speaker_pre_row:
  assumes "j < length (objects canonical)"
  shows "map_sum id (\<lambda>sv. np_T sv ! j) (speaker_all_vals canonical alpha (utterances canonical)) =
           Inr (s1_pre (weight alpha) canonical (objects canonical ! j))"
    and "map_sum id (\<lambda>sv. np_T sv ! j)
           (speaker_all_vals_intro canonical alpha (utterances canonical)) =
           Inr (s1_pre (weight_intro alpha) canonical (objects canonical ! j))"
proof -
  have us: "utterances canonical \<noteq> []" by (simp add: utterances_canonical)
  show "map_sum id (\<lambda>sv. np_T sv ! j) (speaker_all_vals canonical alpha (utterances canonical)) =
           Inr (s1_pre (weight alpha) canonical (objects canonical ! j))"
    using assms by (simp add: speaker_all_vals_eq s1_pre_matrix [OF us])
  show "map_sum id (\<lambda>sv. np_T sv ! j)
           (speaker_all_vals_intro canonical alpha (utterances canonical)) =
           Inr (s1_pre (weight_intro alpha) canonical (objects canonical ! j))"
    using assms by (simp add: speaker_all_vals_intro_eq s1_pre_matrix [OF us])
qed

lemma speaker_row:
  assumes "ob \<in> set (objects canonical)"
  shows "map_sum id (\<lambda>(df, probs). vals probs) (pragmatic_speaker canonical ob alpha) =
           Inr (normalize_row (s1_pre (weight alpha) canonical ob))"
    and "map_sum id (\<lambda>(df, probs). vals probs) (pragmatic_speaker_intro canonical ob alpha) =
           Inr (normalize_row (s1_pre (weight_intro alpha) canonical ob))"
  by (simp_all add: pragmatic_speaker_eq pragmatic_speaker_intro_eq utterances_canonical
      find_canonical [OF assms] s1_row_def)

text \<open>
  Claim C6 as stated lets \<^verbatim>\<open>alpha\<close> grow from 1 without bound. For the blue square
  with \<^verbatim>\<open>alpha = 1\<close> the utterances \<^verbatim>\<open>"blue"\<close> and \<^verbatim>\<open>"square"\<close> have the maximal
  probability, about 0.5. With \<^verbatim>\<open>alpha = 1076\<close> in the first notebook, and with
  \<^verbatim>\<open>alpha = 1075\<close> in \<^verbatim>\<open>intro-to-rsa.ipynb\<close>, every weight
  \<^verbatim>\<open>np.exp(alpha * np.log(...))\<close> of the row underflows to \<^verbatim>\<open>0.0\<close>, the total of the
  row is 0, and \<^verbatim>\<open>normalize_rows\<close> divides 0 by 0: the returned probability of every
  utterance is NaN. The probability of the maximal utterance has gone from 0.5 to NaN,
  which is neither greater than nor equal to 0.5.
\<close>

theorem speaker_max_mass_monotone_counterexample:
  "map_sum id (\<lambda>(df, probs). vals probs) (pragmatic_speaker canonical blue_square 1) =
     Inr [Fin (500000001 / 1000000004), Fin (1 / 1000000004),
          Fin (500000001 / 1000000004), Fin (1 / 1000000004)] \<and>
   fl_less (Fin (1 / 1000000004)) (Fin (500000001 / 1000000004)) \<and>
   map_sum id (\<lambda>sv. np_T sv ! 0) (speaker_all_vals canonical 1076 (utterances canonical)) =
     Inr [Fin 0, Fin 0, Fin 0, Fin 0] \<and>
   map_sum id (\<lambda>(df, probs). vals probs) (pragmatic_speaker canonical blue_square 1076) =
     Inr [NaN, NaN, NaN, NaN] \<and>
   \<not> fl_less (Fin (500000001 / 1000000004)) NaN \<and> Fin (500000001 / 1000000004) \<noteq> NaN \<and>
   map_sum id (\<lambda>(df, probs). vals probs) (pragmatic_speaker_intro canonical blue_square 1) =
     Inr [Fin (1 / 2), Fin 0, Fin (1 / 2), Fin 0] \<and>
   fl_less (Fin 0) (Fin (1 / 2)) \<and>
   map_sum id (\<lambda>sv. np_T sv ! 0) (speaker_all_vals_intro canonical 1075 (utterances canonical)) =
     Inr [Fin 0, Fin 0, Fin 0, Fin 0] \<and>
   map_sum id (\<lambda>(df, probs). vals probs) (pragmatic_speaker_intro canonical blue_square 1075) =
     Inr [NaN, NaN, NaN, NaN] \<and>
   \<not> fl_less (Fin (1 / 2)) NaN \<and> Fin (1 / 2) \<noteq> NaN"
proof -
  have o: "objects canonical ! 0 = blue_square" "0 < length (objects canonical)"
    by (simp_all add: objects_canonical)
  have 1: "map_sum id (\<lambda>(df, probs). vals probs) (pragmatic_speaker canonical blue_square 1) =
     Inr [Fin (500000001 / 1000000004), Fin (1 / 1000000004),
          Fin (500000001 / 1000000004), Fin (1 / 1000000004)]"
    by (simp add: pragmatic_speaker_blue_square)
  have 2: "map_sum id (\<lambda>(df, probs). vals probs) (pragmatic_speaker_intro canonical blue_square 1) =
     Inr [Fin (1 / 2), Fin 0, Fin (1 / 2), Fin 0]"
    by (simp add: stage_eval blue_square_def)
  have 3: "map_sum id (\<lambda>sv. np_T sv ! 0) (speaker_all_vals canonical 1076 (utterances canonical)) =
     Inr [Fin 0, Fin 0, Fin 0, Fin 0]"
    using speaker_pre_row(1) [OF o(2), of 1076] by (simp only: o s1_pre_blue_square_underflow)
  have 4: "map_sum id (\<lambda>sv. np_T sv ! 0)
        (speaker_all_vals_intro canonical 1075 (utterances canonical)) =
     Inr [Fin 0, Fin 0, Fin 0, Fin 0]"
    using speaker_pre_row(2) [OF o(2), of 1075] by (simp only: o s1_pre_blue_square_underflow)
  have 5: "map_sum id (\<lambda>(df, probs). vals probs) (pragmatic_speaker canonical blue_square 1076) =
     Inr [NaN, NaN, NaN, NaN]"
    by (simp only: speaker_row [OF blue_square_registered] s1_pre_blue_square_underflow
        zero_row_nan)
  have 6: "map_sum id (\<lambda>(df, probs). vals probs)
        (pragmatic_speaker_intro canonical blue_square 1075) = Inr [NaN, NaN, NaN, NaN]"
    by (simp only: speaker_row [OF blue_square_registered] s1_pre_blue_square_underflow
        zero_row_nan)
  from 1 2 3 4 5 6 show ?thesis by simp
qed

section \<open>A row whose total overflows\<close>

lemma float_max_bounds: "178 * 10 ^ 306 < float_max" "float_max \<le> 354 * 10 ^ 306"
  by (simp_all add: float_max_def)

lemma fourth_root_10: "177 / 100 < (10::real) powr (1 / 4)" "(10::real) powr (1 / 4) < 178 / 100"
proof -
  let ?x = "(10::real) powr (1 / 4)"
  have x0: "0 \<le> ?x" by simp
  have x4: "?x ^ 4 = 10"
    by (simp add: powr_power)
  show "177 / 100 < ?x"
  proof (rule ccontr)
    assume "\<not> 177 / 100 < ?x"
    then have "?x \<le> 177 / 100" by simp
    then have "?x ^ 4 \<le> (177 / 100) ^ 4" using x0 by (rule power_mono)
    also have "\<dots> < 10" by (simp add: power_divide)
    finally show False using x4 by simp
  qed
  show "?x < 178 / 100"
  proof (rule ccontr)
    assume "\<not> ?x < 178 / 100"
    then have "178 / 100 \<le> ?x" by simp
    then have "(178 / 100) ^ 4 \<le> ?x ^ 4" by (intro power_mono) simp_all
    moreover have "(10::real) < (178 / 100) ^ 4" by (simp add: power_divide)
    ultimately show False using x4 by simp
  qed
qed

lemma eps_powr_large:
  "177 * 10 ^ 306 < (1 / 1000000000 :: real) powr (- 137 / 4)"
  "(1 / 1000000000 :: real) powr (- 137 / 4) < 178 * 10 ^ 306"
proof -
  let ?x = "(10::real) powr (1 / 4)"
  let ?Y = "(1 / 1000000000 :: real) powr (- 137 / 4)"
  have "(1 / 1000000000 :: real) = inverse (10 ^ 9)" by simp
  then have "ln (1 / 1000000000 :: real) = - (9 * ln 10)"
    by (simp only: ln_inverse ln_realpow)
  then have "?Y = exp ((308 + 1 / 4) * ln 10)"
    by (simp add: powr_def)
  also have "\<dots> = (10::real) powr (308 + 1 / 4)"
    by (simp add: powr_def)
  also have "\<dots> = 10 powr 308 * ?x"
    by (rule powr_add)
  also have "\<dots> = 10 ^ 308 * ?x"
    by (simp add: powr_numeral)
  finally have Y: "?Y = 10 ^ 308 * ?x" .
  have "177 * 10 ^ 306 = (10::real) ^ 308 * (177 / 100)" by simp
  also have "\<dots> < 10 ^ 308 * ?x"
    using fourth_root_10(1) by (intro mult_strict_left_mono) simp_all
  finally show "177 * 10 ^ 306 < ?Y" unfolding Y .
  have "10 ^ 308 * ?x < (10::real) ^ 308 * (178 / 100)"
    using fourth_root_10(2) by (intro mult_strict_left_mono) simp_all
  also have "\<dots> = 178 * 10 ^ 306" by simp
  finally show "?Y < 178 * 10 ^ 306" unfolding Y .
qed

lemma half_powr_moderate:
  "1 \<le> (500000001 / 1000000000 :: real) powr (- 137 / 4)"
  "(500000001 / 1000000000 :: real) powr (- 137 / 4) \<le> 2 ^ 35"
proof -
  let ?c = "500000001 / 1000000000 :: real"
  have "?c powr (137 / 4) \<le> 1 powr (137 / 4)"
    by (intro powr_mono2) simp_all
  then have u: "?c powr (137 / 4) \<le> 1" by simp
  have "(1 / 2 :: real) powr 35 \<le> (1 / 2) powr (137 / 4)"
    by (intro powr_mono') simp_all
  also have "\<dots> \<le> ?c powr (137 / 4)"
    by (intro powr_mono2) simp_all
  finally have l: "1 / 2 ^ 35 \<le> ?c powr (137 / 4)"
    by (simp add: powr_numeral power_divide)
  have p: "0 < ?c powr (137 / 4)" by simp
  have m: "?c powr (- 137 / 4) = inverse (?c powr (137 / 4))"
    using powr_minus [of ?c "137 / 4"] by simp
  from u p show "1 \<le> ?c powr (- 137 / 4)"
    unfolding m by (simp add: field_simps)
  from l p show "?c powr (- 137 / 4) \<le> 2 ^ 35"
    unfolding m by (simp add: field_simps)
qed

lemma speaker_weights_overflow_alpha:
  "weight (- 137 / 4) (Fin (1 / 2)) = Fin ((500000001 / 1000000000) powr (- 137 / 4))"
  "weight (- 137 / 4) (Fin 0) = Fin ((1 / 1000000000) powr (- 137 / 4))"
proof -
  let ?A = "(500000001 / 1000000000 :: real) powr (- 137 / 4)"
  let ?Y = "(1 / 1000000000 :: real) powr (- 137 / 4)"
  have "weight (- 137 / 4) (Fin (1 / 2)) = fl_rnd ((1 / 2 + epsilon_speaker) powr (- 137 / 4))"
    by (rule weight_rnd) (simp_all add: epsilon_speaker_def)
  also have "1 / 2 + epsilon_speaker = 500000001 / 1000000000"
    by (simp add: epsilon_speaker_def)
  also have "fl_rnd ?A = Fin ?A"
  proof (rule fl_rnd_eval)
    have "(1::real) / 10 ^ 30 \<le> 1" by simp
    also note half_powr_moderate(1)
    finally show "1 / 10 ^ 30 \<le> \<bar>?A\<bar>" by simp
    note half_powr_moderate(2)
    also have "(2::real) ^ 35 \<le> 10 ^ 30" by simp
    finally show "\<bar>?A\<bar> \<le> 10 ^ 30" by simp
  qed
  finally show "weight (- 137 / 4) (Fin (1 / 2)) = Fin ?A" .
  have "weight (- 137 / 4) (Fin 0) = fl_rnd ((0 + epsilon_speaker) powr (- 137 / 4))"
    by (rule weight_rnd) (simp_all add: epsilon_speaker_def)
  also have "0 + epsilon_speaker = 1 / 1000000000"
    by (simp add: epsilon_speaker_def)
  also have "fl_rnd ?Y = Fin ?Y"
  proof -
    have "?Y < float_max" using eps_powr_large(2) float_max_bounds(1) by linarith
    moreover have "float_min < ?Y"
    proof -
      have "float_min < 1 / 10 ^ 300" by (rule float_min_small)
      also have "\<dots> \<le> (177 * 10 ^ 306 :: real)" by simp
      also note eps_powr_large(1)
      finally show ?thesis .
    qed
    ultimately show ?thesis using float_min_pos by (simp add: fl_rnd_def)
  qed
  finally show "weight (- 137 / 4) (Fin 0) = Fin ?Y" .
qed

lemma overflow_row_total:
  "np_sum [Fin ((500000001 / 1000000000) powr (- 137 / 4)), Fin ((1 / 1000000000) powr (- 137 / 4)),
           Fin ((500000001 / 1000000000) powr (- 137 / 4)), Fin ((1 / 1000000000) powr (- 137 / 4))] =
     PInf"
proof -
  let ?A = "(500000001 / 1000000000 :: real) powr (- 137 / 4)"
  let ?Y = "(1 / 1000000000 :: real) powr (- 137 / 4)"
  have A: "ok_real ?A"
  proof -
    have "float_min < 1" using float_min_small by simp
    also note half_powr_moderate(1)
    finally have "float_min < ?A" .
    moreover have "?A < float_max"
    proof -
      note half_powr_moderate(2)
      also have "(2::real) ^ 35 < 178 * 10 ^ 306" by simp
      also note float_max_bounds(1)
      finally show ?thesis .
    qed
    ultimately show ?thesis using float_min_pos by (simp add: ok_real_def)
  qed
  have Y: "ok_real ?Y"
  proof -
    have "float_min < 1 / 10 ^ 300" by (rule float_min_small)
    also have "\<dots> \<le> (177 * 10 ^ 306 :: real)" by simp
    also note eps_powr_large(1)
    finally have "float_min < ?Y" .
    moreover have "?Y < float_max" using eps_powr_large(2) float_max_bounds(1) by linarith
    ultimately show ?thesis using float_min_pos by (simp add: ok_real_def)
  qed
  from A Y have "\<forall>x \<in> set [?A, ?Y, ?A, ?Y]. ok_real x" by simp
  then have "np_sum (map Fin [?A, ?Y, ?A, ?Y]) =
      (if sum_list [?A, ?Y, ?A, ?Y] < float_max then Fin (sum_list [?A, ?Y, ?A, ?Y]) else PInf)"
    by (rule np_sum_ok)
  moreover have "float_max \<le> sum_list [?A, ?Y, ?A, ?Y]"
    using eps_powr_large(1) half_powr_moderate(1) float_max_bounds(2) by simp
  ultimately show ?thesis by (simp only: list.map) simp
qed

text \<open>
  In the first notebook, \<^verbatim>\<open>pragmatic_speaker\<close> for the blue square with
  \<^verbatim>\<open>alpha = -34.25\<close>: the row handed to \<^verbatim>\<open>normalize_rows\<close> holds four finite
  non-zero numbers (about 2.0e10 and 1.78e308), their total overflows to \<^verbatim>\<open>inf\<close>, and
  the returned distribution is 0 for every utterance: it sums to 0.
\<close>

lemma speaker_row_overflow:
  "map_sum id (\<lambda>sv. np_T sv ! 0) (speaker_all_vals canonical (- 137 / 4) (utterances canonical)) =
     Inr [Fin ((500000001 / 1000000000) powr (- 137 / 4)), Fin ((1 / 1000000000) powr (- 137 / 4)),
          Fin ((500000001 / 1000000000) powr (- 137 / 4)), Fin ((1 / 1000000000) powr (- 137 / 4))]"
  "1 \<le> (500000001 / 1000000000 :: real) powr (- 137 / 4)"
  "1 \<le> (1 / 1000000000 :: real) powr (- 137 / 4)"
  "map_sum id (\<lambda>(df, probs). vals probs) (pragmatic_speaker canonical blue_square (- 137 / 4)) =
     Inr [Fin 0, Fin 0, Fin 0, Fin 0]"
  "np_sum [Fin 0, Fin 0, Fin 0, Fin 0] = Fin 0"
  "\<not> sums_to_one [Fin 0, Fin 0, Fin 0, Fin 0]"
proof -
  let ?A = "(500000001 / 1000000000 :: real) powr (- 137 / 4)"
  let ?Y = "(1 / 1000000000 :: real) powr (- 137 / 4)"
  have o: "objects canonical ! 0 = blue_square" "0 < length (objects canonical)"
    by (simp_all add: objects_canonical)
  have pre: "s1_pre (weight (- 137 / 4)) canonical blue_square = [Fin ?A, Fin ?Y, Fin ?A, Fin ?Y]"
    by (simp only: s1_pre_cells l0_cells_canonical [OF blue_square_registered]
        l0_probs_blue_square list.map speaker_weights_overflow_alpha)
  show "map_sum id (\<lambda>sv. np_T sv ! 0)
      (speaker_all_vals canonical (- 137 / 4) (utterances canonical)) =
     Inr [Fin ?A, Fin ?Y, Fin ?A, Fin ?Y]"
    using speaker_pre_row(1) [OF o(2), of "- 137 / 4"] by (simp only: o pre)
  show "1 \<le> ?A" by (rule half_powr_moderate(1))
  show "1 \<le> ?Y" using eps_powr_large(1) by simp
  have "normalize_row [Fin ?A, Fin ?Y, Fin ?A, Fin ?Y] = [Fin 0, Fin 0, Fin 0, Fin 0]"
    unfolding normalize_row_def overflow_row_total by simp
  then show "map_sum id (\<lambda>(df, probs). vals probs)
      (pragmatic_speaker canonical blue_square (- 137 / 4)) = Inr [Fin 0, Fin 0, Fin 0, Fin 0]"
    by (simp only: speaker_row [OF blue_square_registered] pre)
  show "np_sum [Fin 0, Fin 0, Fin 0, Fin 0] = Fin 0"
    by (simp add: np_sum_def)
  then show "\<not> sums_to_one [Fin 0, Fin 0, Fin 0, Fin 0]"
    by (simp add: sums_to_one_def)
qed

section \<open>The stabilization constant of the pragmatic speaker\<close>

text \<open>
  In the first notebook the constant \<^verbatim>\<open>epsilon = 0.000000001\<close> is added before the
  logarithm: for a probability \<open>p\<close> between 0 and 1 the logarithm is taken of a positive
  number. The weight of \<open>p = 0\<close> is \<open>epsilon powr alpha\<close>, positive and at most
  \<^verbatim>\<open>epsilon\<close>, for \<^verbatim>\<open>alpha\<close> from 1 to 35; from \<^verbatim>\<open>alpha = 36\<close> on it underflows to
  \<^verbatim>\<open>0.0\<close>.
\<close>

lemma speaker_weight_stabilized:
  assumes "0 \<le> p" and "p \<le> 1" and "1 / 10 ^ 30 \<le> \<bar>p + epsilon_speaker - 1\<bar>"
  shows "0 < p + epsilon_speaker"
    and "fl_log (fl_add (Fin p) (Fin epsilon_speaker)) = Fin (ln (p + epsilon_speaker))"
proof -
  let ?c = "p + epsilon_speaker"
  have c: "0 < ?c" "1 / 10 ^ 30 \<le> ?c" "?c \<le> 10 ^ 30"
    using assms(1,2) by (simp_all add: epsilon_speaker_def add_nonneg_pos)
  show "0 < ?c" by (rule c(1))
  have 1: "fl_add (Fin p) (Fin epsilon_speaker) = Fin ?c"
    using c by (simp add: fl_rnd_eval)
  show "fl_log (fl_add (Fin p) (Fin epsilon_speaker)) = Fin (ln ?c)"
    unfolding 1 using c(1) fl_rnd_ln [OF c(1) assms(3) c(2,3)] by simp
qed

lemma eps_powr_35_36:
  "epsilon_speaker powr 35 = 1 / 10 ^ 315" "epsilon_speaker powr 36 = 1 / 10 ^ 324"
  by (simp_all add: epsilon_speaker_def powr_numeral power_divide)

lemma float_min_bounds: "float_min < 1 / 10 ^ 315" "1 / 10 ^ 324 \<le> float_min"
  by (simp_all add: float_min_def)

lemma speaker_weight_of_zero_small:
  assumes "1 \<le> alpha" and "alpha \<le> 35"
  shows "weight alpha (Fin 0) = Fin (epsilon_speaker powr alpha)"
    and "0 < epsilon_speaker powr alpha"
    and "epsilon_speaker powr alpha \<le> epsilon_speaker"
proof -
  have e: "0 < epsilon_speaker" "epsilon_speaker \<le> 1"
    by (simp_all add: epsilon_speaker_def)
  have "float_min < 1 / 10 ^ 315" by (rule float_min_bounds)
  also have "\<dots> = epsilon_speaker powr 35" by (simp only: eps_powr_35_36)
  also have "\<dots> \<le> epsilon_speaker powr alpha"
    using assms(2) e by (intro powr_mono') simp_all
  finally have lo: "float_min < epsilon_speaker powr alpha" .
  have "weight alpha (Fin 0) = Fin (sat ((0 + epsilon_speaker) powr alpha))"
    using assms by (intro weight_sat) (simp_all add: epsilon_speaker_def)
  then show "weight alpha (Fin 0) = Fin (epsilon_speaker powr alpha)"
    using lo by (simp add: sat_id)
  show "0 < epsilon_speaker powr alpha" using e by simp
  have "epsilon_speaker powr alpha \<le> epsilon_speaker powr 1"
    using assms(1) e by (intro powr_mono') simp_all
  then show "epsilon_speaker powr alpha \<le> epsilon_speaker" using e by simp
qed

lemma speaker_weight_of_zero_underflow:
  assumes "36 \<le> alpha" and "alpha \<le> 10 ^ 9"
  shows "weight alpha (Fin 0) = Fin 0"
proof -
  have e: "0 < epsilon_speaker" "epsilon_speaker \<le> 1"
    by (simp_all add: epsilon_speaker_def)
  have "epsilon_speaker powr alpha \<le> epsilon_speaker powr 36"
    using assms(1) e by (intro powr_mono') simp_all
  also have "\<dots> = 1 / 10 ^ 324" by (simp only: eps_powr_35_36)
  also have "\<dots> \<le> float_min" by (rule float_min_bounds)
  finally have hi: "epsilon_speaker powr alpha \<le> float_min" .
  have "weight alpha (Fin 0) = Fin (sat ((0 + epsilon_speaker) powr alpha))"
    using assms by (intro weight_sat) (simp_all add: epsilon_speaker_def)
  then show ?thesis using hi by (simp add: sat_def)
qed

text \<open>
  Claim C2 says that the constant is added in the pragmatic speaker, so that a
  literal-listener probability of zero gets a small non-zero weight and the logarithm of
  zero is never taken. \<^verbatim>\<open>pragmatic_speaker\<close> of \<^verbatim>\<open>intro-to-rsa.ipynb\<close> does not add
  it: in the canonical world with \<^verbatim>\<open>alpha = 1\<close> the literal listener gives the objects
  the probabilities 0, 0, 1 for \<^verbatim>\<open>"green"\<close>, the code takes \<^verbatim>\<open>np.log\<close> of exactly 0
  (\<^verbatim>\<open>-inf\<close>; the notebook's output shows the RuntimeWarning), and the weights are
  exactly 0.
\<close>

theorem speaker_intro_log_of_zero:
  "map_sum id (\<lambda>(df, probs). vals probs) (literal_listener canonical ''green'') =
     Inr [Fin 0, Fin 0, Fin 1] \<and>
   fl_log (Fin 0) = NInf \<and>
   map (\<lambda>p. fl_exp (fl_mul (Fin 1) (fl_log p))) [Fin 0, Fin 0, Fin 1] = [Fin 0, Fin 0, Fin 1] \<and>
   speaker_all_vals_intro canonical 1 (utterances canonical) =
     Inr [[Fin (1 / 2), Fin (1 / 2), Fin 0], [Fin 0, Fin 0, Fin 1],
          [Fin (1 / 2), Fin 0, Fin (1 / 2)], [Fin 0, Fin 1, Fin 0]]"
  by (simp add: stage_eval)

section \<open>Finite probabilities in the canonical world\<close>

text \<open>
  In the canonical world every utterance is true of some object and every object
  satisfies some utterance; no row handed to \<^verbatim>\<open>normalize_rows\<close> is all-zero and every
  table and row returned for a registered query is finite: for \<^verbatim>\<open>literal_listener\<close>,
  for both pragmatic listeners, and for \<^verbatim>\<open>pragmatic_speaker\<close> of both notebooks with
  \<^verbatim>\<open>alpha\<close> from 1 to 1074.
\<close>

lemma sat_weights_not_zero:
  assumes "m \<in> set qs" and "1 / 2 \<le> m" and "0 \<le> a" and "a \<le> 1074"
  shows "list_ex (\<lambda>x. x \<noteq> Fin 0) (map Fin (sat_weights a qs))"
proof -
  have lo: "float_min < m powr a" using assms(2,3,4) by (rule powr_half_in_range)
  then have "sat (m powr a) = m powr a" by (rule sat_id)
  moreover from lo float_min_pos have "0 < m powr a" by linarith
  ultimately have "sat (m powr a) \<noteq> 0" by linarith
  with assms(1) show ?thesis by (auto simp: list_ex_iff sat_weights_def)
qed

lemma list_all_finite_Fin: "list_all is_finite (map Fin rs)"
  by (simp add: list_all_iff)

lemma speaker_pre_rows_canonical:
  assumes "1 \<le> alpha" and "alpha \<le> 1074"
  shows "\<exists>sv. speaker_all_vals canonical alpha (utterances canonical) = Inr sv \<and>
              no_zero_row (np_T sv)"
proof -
  have us: "utterances canonical \<noteq> []" by (simp add: utterances_canonical)
  from assms have a: "0 \<le> alpha" "alpha \<le> 10 ^ 9" by simp_all
  have "list_ex (\<lambda>x. x \<noteq> Fin 0) (s1_pre (weight alpha) canonical ob)"
    if "ob \<in> set (objects canonical)" for ob
  proof -
    from eps_probs_max [of ob] obtain m
      where m: "m \<in> set (map (\<lambda>p. p + epsilon_speaker) (l0_probs ob))" "1 / 2 \<le> m" by blast
    show ?thesis
      unfolding s1_pre_canonical [OF that assms(1) a(2)]
      using m a(1) assms(2) by (rule sat_weights_not_zero)
  qed
  then have "no_zero_row (map (s1_pre (weight alpha) canonical) (objects canonical))"
    by (simp add: no_zero_row_def list_all_iff)
  then show ?thesis
    by (simp add: speaker_all_vals_eq s1_pre_matrix [OF us])
qed

lemma speaker_intro_pre_rows_canonical:
  assumes "1 \<le> alpha" and "alpha \<le> 1074"
  shows "\<exists>sv. speaker_all_vals_intro canonical alpha (utterances canonical) = Inr sv \<and>
              no_zero_row (np_T sv)"
proof -
  have us: "utterances canonical \<noteq> []" by (simp add: utterances_canonical)
  from assms have a: "0 \<le> alpha" "alpha \<le> 10 ^ 9" by simp_all
  have "list_ex (\<lambda>x. x \<noteq> Fin 0) (s1_pre (weight_intro alpha) canonical ob)"
    if "ob \<in> set (objects canonical)" for ob
  proof -
    from l0_probs_max [of ob] obtain m
      where m: "m \<in> set (l0_probs ob)" "1 / 2 \<le> m" by blast
    show ?thesis
      unfolding s1_pre_intro_canonical [OF that assms(1) a(2)]
      using m a(1) assms(2) by (rule sat_weights_not_zero)
  qed
  then have "no_zero_row (map (s1_pre (weight_intro alpha) canonical) (objects canonical))"
    by (simp add: no_zero_row_def list_all_iff)
  then show ?thesis
    by (simp add: speaker_all_vals_intro_eq s1_pre_matrix [OF us])
qed

lemma speaker_finite_canonical:
  assumes "1 \<le> alpha" and "alpha \<le> 1074"
  shows "list_all (\<lambda>ob. returns_finite (pragmatic_speaker canonical ob alpha)) (objects canonical)"
proof -
  have "list_all is_finite (s1_row (weight alpha) canonical ob)"
    if "ob \<in> set (objects canonical)" for ob
    unfolding s1_row_canonical [OF that assms] by (rule list_all_finite_Fin)
  then have d: "list_all (list_all is_finite) (data (s1_df (weight alpha) canonical))"
    by (simp add: s1_df_def list_all_iff)
  have "returns_finite (pragmatic_speaker canonical ob alpha)"
    if "ob \<in> set (objects canonical)" for ob
    unfolding pragmatic_speaker_canonical [OF that assms]
    using d by (simp add: returns_finite_def list_all_finite_Fin)
  then show ?thesis by (simp add: list_all_iff)
qed

lemma speaker_intro_finite_canonical:
  assumes "1 \<le> alpha" and "alpha \<le> 1074"
  shows "list_all (\<lambda>ob. returns_finite (pragmatic_speaker_intro canonical ob alpha))
           (objects canonical)"
proof -
  have "list_all is_finite (s1_row (weight_intro alpha) canonical ob)"
    if "ob \<in> set (objects canonical)" for ob
    unfolding s1_row_intro_canonical [OF that assms] by (rule list_all_finite_Fin)
  then have d: "list_all (list_all is_finite) (data (s1_df (weight_intro alpha) canonical))"
    by (simp add: s1_df_def list_all_iff)
  have "returns_finite (pragmatic_speaker_intro canonical ob alpha)"
    if "ob \<in> set (objects canonical)" for ob
    unfolding pragmatic_speaker_intro_canonical [OF that assms]
    using d by (simp add: returns_finite_def list_all_finite_Fin)
  then show ?thesis by (simp add: list_all_iff)
qed

lemma canonical_world_finite:
  assumes "1 \<le> alpha" and "alpha \<le> 1074"
  shows "list_all (\<lambda>u. list_ex (\<lambda>ob. meaning ob u) (objects canonical)) (utterances canonical) \<and>
   list_all (\<lambda>ob. list_ex (\<lambda>u. meaning ob u) (utterances canonical)) (objects canonical) \<and>
   no_zero_row (all_counts canonical) \<and>
   list_all (\<lambda>u. returns_finite (literal_listener canonical u)) (utterances canonical) \<and>
   (\<exists>sv. speaker_all_vals canonical alpha (utterances canonical) = Inr sv \<and>
      no_zero_row (np_T sv)) \<and>
   list_all (\<lambda>ob. returns_finite (pragmatic_speaker canonical ob alpha)) (objects canonical) \<and>
   (\<exists>sv. speaker_all_vals_intro canonical alpha (utterances canonical) = Inr sv \<and>
      no_zero_row (np_T sv)) \<and>
   list_all (\<lambda>ob. returns_finite (pragmatic_speaker_intro canonical ob alpha))
     (objects canonical) \<and>
   (\<exists>lv. listener_all_vals canonical (objects canonical) = Inr lv \<and> no_zero_row (np_T lv)) \<and>
   list_all (\<lambda>u. returns_finite (pragmatic_listener canonical u)) (utterances canonical) \<and>
   (\<exists>lv. listener_all_vals_intro canonical (objects canonical) = Inr lv \<and>
      no_zero_row (np_T lv)) \<and>
   list_all (\<lambda>u. returns_finite (pragmatic_listener_intro canonical u)) (utterances canonical)"
proof -
  have 1: "list_all (\<lambda>u. list_ex (\<lambda>ob. meaning ob u) (objects canonical)) (utterances canonical)"
    and 2: "list_all (\<lambda>ob. list_ex (\<lambda>u. meaning ob u) (utterances canonical)) (objects canonical)"
    by (simp_all add: canonical_def meaning_def)
  have 3: "no_zero_row (all_counts canonical)"
    by (simp add: no_zero_row_def canonical_eval)
  have 4: "list_all (\<lambda>u. returns_finite (literal_listener canonical u)) (utterances canonical)"
    by (simp add: returns_finite_def canonical_eval)
  have 5: "\<exists>lv. listener_all_vals canonical (objects canonical) = Inr lv \<and> no_zero_row (np_T lv)"
    by (simp add: no_zero_row_def stage_eval)
  have 6: "list_all (\<lambda>u. returns_finite (pragmatic_listener canonical u)) (utterances canonical)"
    by (simp add: returns_finite_def stage_eval)
  have 7: "\<exists>lv. listener_all_vals_intro canonical (objects canonical) = Inr lv \<and>
      no_zero_row (np_T lv)"
    by (simp add: no_zero_row_def stage_eval)
  have 8: "list_all (\<lambda>u. returns_finite (pragmatic_listener_intro canonical u))
      (utterances canonical)"
    by (simp add: returns_finite_def stage_eval)
  show ?thesis
    using 1 2 3 4 5 6 7 8 speaker_pre_rows_canonical [OF assms]
      speaker_finite_canonical [OF assms] speaker_intro_pre_rows_canonical [OF assms]
      speaker_intro_finite_canonical [OF assms]
    by blast
qed

lemma pragmatic_speaker_alpha_zero:
  "pragmatic_speaker canonical blue_square 0 =
     Inr (\<lparr>data = [[Fin (1 / 4), Fin (1 / 4), Fin (1 / 4), Fin (1 / 4)],
                   [Fin (1 / 4), Fin (1 / 4), Fin (1 / 4), Fin (1 / 4)],
                   [Fin (1 / 4), Fin (1 / 4), Fin (1 / 4), Fin (1 / 4)]],
            index = [''blue square'', ''blue circle'', ''green square''],
            columns = [''blue'', ''green'', ''square'', ''circle'']\<rparr>,
          \<lparr>vals = [Fin (1 / 4), Fin (1 / 4), Fin (1 / 4), Fin (1 / 4)],
            labels = [''blue'', ''green'', ''square'', ''circle''],
            name = ''blue square''\<rparr>)"
  by (simp add: stage_eval blue_square_def)


end
